theory Spec2Isabelle
  imports Complex_Main "HOL-Library.Multiset" "HOL-Library.Log_Nat"
begin

section \<open>Numbers of the source language\<close>

text \<open>
  The components are TypeScript. A value of type \<open>number\<close> is a finite number, one of the
  two infinities, or \<open>NaN\<close> (what \<open>+text\<close> yields for text that is no numeral). Finite
  numbers are modelled by the reals they denote: comparisons are exact, and the result of
  an addition or a division is rounded to a binary64 number (section Arithmetic on
  numbers). There is one zero.
\<close>

datatype number = NaN | NInf | Fin real | PInf

text \<open>The relational operators: every comparison with \<open>NaN\<close> is false.\<close>

fun js_lt :: "number \<Rightarrow> number \<Rightarrow> bool" where
  "js_lt (Fin a) (Fin b) = (a < b)"
| "js_lt NInf (Fin b) = True"
| "js_lt NInf PInf = True"
| "js_lt (Fin a) PInf = True"
| "js_lt _ _ = False"

definition js_le :: "number \<Rightarrow> number \<Rightarrow> bool" where
  "js_le a b = (a \<noteq> NaN \<and> b \<noteq> NaN \<and> \<not> js_lt b a)"

definition js_gt :: "number \<Rightarrow> number \<Rightarrow> bool" where
  "js_gt a b = js_lt b a"

definition js_ge :: "number \<Rightarrow> number \<Rightarrow> bool" where
  "js_ge a b = js_le b a"

definition isNaN :: "number \<Rightarrow> bool" where
  "isNaN x = (x = NaN)"

section \<open>Categorical bucketing\<close>

text \<open>\<open>categorizeAge\<close> of the bar chart with the cut-offs 27, 37, 47, 57.\<close>

definition categorizeAge :: "number \<Rightarrow> string" where
  "categorizeAge age =
    (if js_ge age (Fin 18) \<and> js_le age (Fin 27) then ''18-27''
     else if js_ge age (Fin 28) \<and> js_le age (Fin 37) then ''28-37''
     else if js_ge age (Fin 38) \<and> js_le age (Fin 47) then ''38-47''
     else if js_ge age (Fin 48) \<and> js_le age (Fin 57) then ''48-57''
     else if js_ge age (Fin 58) \<and> js_le age (Fin 69) then ''58-69''
     else ''Unknown'')"

text \<open>\<open>categorizeAge\<close> of the Homework 2 bar chart: the same shape, other cut-offs.\<close>

definition categorizeAge_HW2 :: "number \<Rightarrow> string" where
  "categorizeAge_HW2 age =
    (if js_ge age (Fin 18) \<and> js_le age (Fin 25) then ''18-25''
     else if js_ge age (Fin 26) \<and> js_le age (Fin 35) then ''26-35''
     else if js_ge age (Fin 36) \<and> js_le age (Fin 45) then ''36-45''
     else if js_ge age (Fin 46) \<and> js_le age (Fin 55) then ''46-55''
     else if js_ge age (Fin 56) \<and> js_le age (Fin 69) then ''56-69''
     else ''Unknown'')"

text \<open>The age table of the hexbin plot, and the test its filter applies to a row's age.\<close>

record ageGroup =
  min_age :: number
  max_age :: number
  label :: string

definition ageGroups :: "ageGroup list" where
  "ageGroups =
    [\<lparr>min_age = Fin 18, max_age = Fin 27, label = ''18-27''\<rparr>,
     \<lparr>min_age = Fin 28, max_age = Fin 37, label = ''28-37''\<rparr>,
     \<lparr>min_age = Fin 38, max_age = Fin 47, label = ''38-47''\<rparr>,
     \<lparr>min_age = Fin 48, max_age = Fin 57, label = ''48-57''\<rparr>,
     \<lparr>min_age = Fin 58, max_age = Fin 69, label = ''58-69''\<rparr>]"

definition in_ageGroup :: "ageGroup \<Rightarrow> number \<Rightarrow> bool" where
  "in_ageGroup g age = (js_ge age (min_age g) \<and> js_le age (max_age g))"

text \<open>The income labels and \<open>assignIncomeToRange\<close> of the two flow diagrams (the same text in both).\<close>

definition incomeRanges :: "string list" where
  "incomeRanges = [''< 20K'', ''20K - 50K'', ''50K - 100K'', ''100K - 200K'', ''> 200K'']"

definition assignIncomeToRange :: "number \<Rightarrow> string" where
  "assignIncomeToRange income =
    (if js_lt income (Fin 20000) then ''< 20K''
     else if js_ge income (Fin 20000) \<and> js_lt income (Fin 50000) then ''20K - 50K''
     else if js_ge income (Fin 50000) \<and> js_lt income (Fin 100000) then ''50K - 100K''
     else if js_ge income (Fin 100000) \<and> js_lt income (Fin 200000) then ''100K - 200K''
     else ''> 200K'')"

text \<open>
  The bucketer as section 4.1 of the specification words it, to compare the functions above
  with: the label of the first interval of the table that contains the value, and the
  fallback label when no interval does.
\<close>

definition bucket_spec ::
  "('t \<Rightarrow> number \<Rightarrow> bool) \<Rightarrow> ('t \<Rightarrow> string) \<Rightarrow> 't list \<Rightarrow> string \<Rightarrow> number \<Rightarrow> string" where
  "bucket_spec contains label_of table fallback v =
     (case find (\<lambda>t. contains t v) table of Some t \<Rightarrow> label_of t | None \<Rightarrow> fallback)"

text \<open>
  The income intervals that go with the labels but the last: the bounds the tests of
  \<open>assignIncomeToRange\<close> compare with, the first interval unbounded below. An income is
  in an interval when it is at least the lower bound and below the upper bound.
\<close>

definition incomeBounds :: "(number \<times> number) list" where
  "incomeBounds =
     [(NInf, Fin 20000), (Fin 20000, Fin 50000), (Fin 50000, Fin 100000), (Fin 100000, Fin 200000)]"

definition incomeTable :: "((number \<times> number) \<times> string) list" where
  "incomeTable = zip incomeBounds incomeRanges"

definition in_incomeRange :: "(number \<times> number) \<times> string \<Rightarrow> number \<Rightarrow> bool" where
  "in_incomeRange t income = (js_ge income (fst (fst t)) \<and> js_lt income (snd (fst t)))"

text \<open>
  Section 4.1 of the specification takes every interval of a table as closed on both ends.
  Read so, an income is in an interval of the income table when it is at least the lower
  and at most the upper bound.
\<close>

definition in_incomeRange_closed :: "(number \<times> number) \<times> string \<Rightarrow> number \<Rightarrow> bool" where
  "in_incomeRange_closed t income = (js_ge income (fst (fst t)) \<and> js_le income (snd (fst t)))"

section \<open>Arithmetic on numbers\<close>

text \<open>
  The finite numbers are the binary64 numbers: the multiples \<open>m * 2 ^ (e - 52)\<close> with an
  integer \<open>m\<close> of magnitude below \<open>2 ^ 53\<close> and an exponent \<open>e\<close> from -1022 to 1023. The
  result of an addition or a division of finite numbers is the exact result rounded to the
  nearest binary64 number, a tie going to the neighbour with the even multiplier, and an
  infinity when the rounded magnitude reaches \<open>2 ^ 1024\<close>.

  \<open>pow2 i\<close> is the power of two with the integer exponent \<open>i\<close>. \<open>binade x\<close> is the
  exponent \<open>e\<close> with \<open>2 ^ e \<le> \<bar>x\<bar> < 2 ^ (e + 1)\<close> for \<open>x\<close> other than 0. \<open>round_even\<close>
  rounds to the nearest integer, a tie to the even one. \<open>round64 x\<close> rounds \<open>x\<close> to the
  nearest multiple of the spacing \<open>u\<close> that the binary64 numbers have at \<open>x\<close>, which is
  \<open>2 ^ (e - 52)\<close> for the exponent \<open>e\<close> of \<open>x\<close>, and \<open>2 ^ (- 1074)\<close> below \<open>2 ^ (- 1022)\<close>.
\<close>

definition pow2 :: "int \<Rightarrow> real" where
  "pow2 i = (if 0 \<le> i then 2 ^ nat i else inverse (2 ^ nat (- i)))"

definition binade :: "real \<Rightarrow> int" where
  "binade x = (if 1 \<le> \<bar>x\<bar> then bitlen \<lfloor>\<bar>x\<bar>\<rfloor> - 1 else - bitlen (\<lceil>1 / \<bar>x\<bar>\<rceil> - 1))"

definition round_even :: "real \<Rightarrow> int" where
  "round_even q =
     (let f = \<lfloor>q\<rfloor>; r = q - of_int f
      in if r < 1 / 2 then f else if 1 / 2 < r then f + 1 else if even f then f else f + 1)"

definition round64 :: "real \<Rightarrow> number" where
  "round64 x =
     (if x = 0 then Fin 0
      else (let u = pow2 (max (binade x) (- 1022) - 52);
                y = of_int (round_even (x / u)) * u
            in if 2 ^ 1024 \<le> \<bar>y\<bar> then (if 0 < y then PInf else NInf) else Fin y))"

text \<open>
  Addition: the rounded sum of two finite numbers; \<open>NaN\<close> absorbs, the two infinities of
  opposite sign add to \<open>NaN\<close>, an infinity absorbs every finite number.
\<close>

fun js_add :: "number \<Rightarrow> number \<Rightarrow> number" where
  "js_add (Fin a) (Fin b) = round64 (a + b)"
| "js_add NaN _ = NaN"
| "js_add _ NaN = NaN"
| "js_add PInf NInf = NaN"
| "js_add NInf PInf = NaN"
| "js_add PInf _ = PInf"
| "js_add _ PInf = PInf"
| "js_add NInf _ = NInf"
| "js_add _ NInf = NInf"

text \<open>Division: the rounded quotient, with the one (positive) zero of the model.\<close>

fun js_div :: "number \<Rightarrow> number \<Rightarrow> number" where
  "js_div (Fin a) (Fin b) =
     (if b = 0 then (if a = 0 then NaN else if 0 < a then PInf else NInf) else round64 (a / b))"
| "js_div NaN _ = NaN"
| "js_div _ NaN = NaN"
| "js_div (Fin a) _ = Fin 0"
| "js_div PInf (Fin b) = (if 0 \<le> b then PInf else NInf)"
| "js_div NInf (Fin b) = (if 0 \<le> b then NInf else PInf)"
| "js_div _ _ = NaN"

text \<open>A number is truthy unless it is \<open>NaN\<close> or zero.\<close>

definition truthy_number :: "number \<Rightarrow> bool" where
  "truthy_number x = (x \<noteq> NaN \<and> x \<noteq> Fin 0)"

section \<open>The library functions the bar chart aggregates with\<close>

text \<open>
  \<open>d3.sum\<close> and \<open>d3.rollup\<close> belong to the d3-array package the components import; they
  are modelled as that package defines them.

  \<open>d3.sum(values, accessor)\<close> starts from 0 and adds, in order, every accessed value that
  is truthy as a number: a \<open>NaN\<close> is skipped, not propagated.
\<close>

fun d3_sum_from :: "number \<Rightarrow> ('a \<Rightarrow> number) \<Rightarrow> 'a list \<Rightarrow> number" where
  "d3_sum_from s f [] = s"
| "d3_sum_from s f (v # vs) =
     d3_sum_from (if truthy_number (f v) then js_add s (f v) else s) f vs"

definition d3_sum :: "('a \<Rightarrow> number) \<Rightarrow> 'a list \<Rightarrow> number" where
  "d3_sum f vs = d3_sum_from (Fin 0) f vs"

text \<open>
  \<open>d3.rollup(values, reduce, key1, key2)\<close> groups the values by \<open>key1\<close> into a map that
  keeps its keys in the order of first occurrence, groups every group by \<open>key2\<close> in the
  same way, and replaces every innermost group (the values in their input order) by
  \<open>reduce\<close> of it. Such a map is an association list with distinct keys here.
  \<open>push_group\<close> is one turn of the grouping loop: append to the key's group, or set a new
  key (at the end) to a singleton group.
\<close>

fun push_group :: "'k \<Rightarrow> 'a \<Rightarrow> ('k \<times> 'a list) list \<Rightarrow> ('k \<times> 'a list) list" where
  "push_group k v [] = [(k, [v])]"
| "push_group k v ((k', g) # gs) =
     (if k' = k then (k', g @ [v]) # gs else (k', g) # push_group k v gs)"

definition d3_group :: "('a \<Rightarrow> 'k) \<Rightarrow> 'a list \<Rightarrow> ('k \<times> 'a list) list" where
  "d3_group key vs = foldl (\<lambda>groups v. push_group (key v) v groups) [] vs"

definition d3_rollup ::
  "('a list \<Rightarrow> 'c) \<Rightarrow> ('a \<Rightarrow> 'k) \<Rightarrow> ('a \<Rightarrow> 'j) \<Rightarrow> 'a list \<Rightarrow> ('k \<times> ('j \<times> 'c) list) list" where
  "d3_rollup reduce key1 key2 vs =
     map (\<lambda>(k, g). (k, map (\<lambda>(j, h). (j, reduce h)) (d3_group key2 g))) (d3_group key1 vs)"

section \<open>The bar chart: loaded rows, aggregate, stacked means\<close>

text \<open>
  A loaded row of the bar chart. The loader stores whatever the risk column holds, so the
  field is absent (\<open>undefined\<close>) when the file has no such column.
\<close>

record DataType =
  Age :: string
  Income :: number
  RiskRating :: "string option"

text \<open>
  What the reducer of \<open>aggregatedData\<close> returns for a group, the reducer, and the
  aggregate by age group and risk rating.
\<close>

record cell =
  totalIncome :: number
  count_c :: nat

definition income_reducer :: "DataType list \<Rightarrow> cell" where
  "income_reducer v = \<lparr>totalIncome = d3_sum Income v, count_c = length v\<rparr>"

definition aggregatedData :: "DataType list \<Rightarrow> (string \<times> (string option \<times> cell) list) list" where
  "aggregatedData data = d3_rollup income_reducer Age RiskRating data"

text \<open>
  Two ways to read an aggregate: all its cells, and the cell of a primary and a secondary
  key (\<open>aggregate.get(k)?.get(j)\<close>).
\<close>

definition cells :: "('k \<times> ('j \<times> 'c) list) list \<Rightarrow> 'c list" where
  "cells m = concat (map (\<lambda>(k, inner). map snd inner) m)"

definition lookup_cell :: "('k \<times> ('j \<times> 'c) list) list \<Rightarrow> 'k \<Rightarrow> 'j \<Rightarrow> 'c option" where
  "lookup_cell m k j = (case map_of m k of None \<Rightarrow> None | Some inner \<Rightarrow> map_of inner j)"






text \<open>
  The rows of the scenario in section 8 of the specification, as loaded: ages 30, 30 and 40,
  incomes 100, 300 and 200.
\<close>

definition scenario :: "DataType list" where
  "scenario =
     [\<lparr>Age = categorizeAge (Fin 30), Income = Fin 100, RiskRating = Some ''Low''\<rparr>,
      \<lparr>Age = categorizeAge (Fin 30), Income = Fin 300, RiskRating = Some ''Low''\<rparr>,
      \<lparr>Age = categorizeAge (Fin 40), Income = Fin 200, RiskRating = Some ''High''\<rparr>]"

text \<open>
  Rows whose incomes are added without rounding, in any order and any grouping: every
  income is a whole number or \<open>NaN\<close> (which \<open>d3.sum\<close> skips), and the magnitudes of the
  incomes add up to \<open>2 ^ 53\<close> at most. \<open>income_int\<close> is the income of a row as an integer,
  0 for an income that \<open>d3.sum\<close> skips.
\<close>

definition income_int :: "DataType \<Rightarrow> int" where
  "income_int d = (case Income d of Fin a \<Rightarrow> \<lfloor>a\<rfloor> | _ \<Rightarrow> 0)"

definition exact_incomes :: "DataType list \<Rightarrow> bool" where
  "exact_incomes rows =
     (list_all (\<lambda>d. Income d = NaN \<or> Income d = Fin (of_int (income_int d))) rows \<and>
      (\<Sum>d\<leftarrow>rows. \<bar>income_int d\<bar>) \<le> 2 ^ 53)"

text \<open>
  Rows with an income above \<open>2 ^ 53\<close>, where the binary64 numbers are 2 apart: three rows
  of one cell, and four rows of two cells.
\<close>

definition big_rows :: "DataType list" where
  "big_rows =
     [\<lparr>Age = ''28-37'', Income = Fin 10000000000000000, RiskRating = Some ''Low''\<rparr>,
      \<lparr>Age = ''28-37'', Income = Fin 1, RiskRating = Some ''Low''\<rparr>,
      \<lparr>Age = ''28-37'', Income = Fin 1, RiskRating = Some ''Low''\<rparr>]"

definition mixed_rows :: "DataType list" where
  "mixed_rows =
     [\<lparr>Age = ''28-37'', Income = Fin 10000000000000000, RiskRating = Some ''Low''\<rparr>,
      \<lparr>Age = ''38-47'', Income = Fin 1, RiskRating = Some ''High''\<rparr>,
      \<lparr>Age = ''28-37'', Income = Fin 1, RiskRating = Some ''Low''\<rparr>,
      \<lparr>Age = ''38-47'', Income = Fin 1, RiskRating = Some ''High''\<rparr>]"

section \<open>The loaders\<close>

text \<open>
  A parsed line of the file maps a column name to the text of its field; a name that is no
  column of the file has no field. The conversion \<open>+text\<close> of a field's text to a number
  is the language's own and a parameter \<open>num\<close> of every loader; \<open>+undefined\<close> is \<open>NaN\<close>.
\<close>

type_synonym csvRow = "string \<Rightarrow> string option"

definition unary_plus :: "(string \<Rightarrow> number) \<Rightarrow> string option \<Rightarrow> number" where
  "unary_plus num x = (case x of None \<Rightarrow> NaN | Some s \<Rightarrow> num s)"

text \<open>A field is truthy when it is there and not the empty text.\<close>

definition truthy_text :: "string option \<Rightarrow> bool" where
  "truthy_text x = (case x of None \<Rightarrow> False | Some s \<Rightarrow> s \<noteq> [])"

text \<open>
  The row function of the bar chart, and that of the Homework 2 bar chart, which differs in
  the cut-offs of the age groups. \<open>d3.csv\<close> keeps a row unless its row function returns
  \<open>null\<close>, modelled as \<open>None\<close>.
\<close>

definition BarChartOverview_row :: "(string \<Rightarrow> number) \<Rightarrow> csvRow \<Rightarrow> DataType option" where
  "BarChartOverview_row num d =
     (let age = unary_plus num (d ''Age'');
          ageGroup = categorizeAge age
      in Some \<lparr>Age = ageGroup, Income = unary_plus num (d ''Income''),
               RiskRating = d ''Risk Rating''\<rparr>)"

definition BarChartOverview_load :: "(string \<Rightarrow> number) \<Rightarrow> csvRow list \<Rightarrow> DataType list" where
  "BarChartOverview_load num csv = List.map_filter (BarChartOverview_row num) csv"

definition BarChartOverview_row_HW2 :: "(string \<Rightarrow> number) \<Rightarrow> csvRow \<Rightarrow> DataType option" where
  "BarChartOverview_row_HW2 num d =
     (let age = unary_plus num (d ''Age'');
          ageGroup = categorizeAge_HW2 age
      in Some \<lparr>Age = ageGroup, Income = unary_plus num (d ''Income''),
               RiskRating = d ''Risk Rating''\<rparr>)"

definition BarChartOverview_load_HW2 :: "(string \<Rightarrow> number) \<Rightarrow> csvRow list \<Rightarrow> DataType list" where
  "BarChartOverview_load_HW2 num csv = List.map_filter (BarChartOverview_row_HW2 num) csv"

text \<open>The row function of the hexbin plot.\<close>

record DataType_H =
  CreditScore :: number
  Income_H :: number
  RiskRating_H :: string
  DebtToIncomeRatio :: number
  Age_H :: number

definition HexbinPlot_row :: "(string \<Rightarrow> number) \<Rightarrow> csvRow \<Rightarrow> DataType_H option" where
  "HexbinPlot_row num d =
     (let creditScore = unary_plus num (d ''Credit Score'');
          income = unary_plus num (d ''Income'');
          riskRating = d ''Risk Rating'';
          debtToIncomeRatio = unary_plus num (d ''Debt-to-Income Ratio'');
          age = unary_plus num (d ''Age'')
      in if \<not> isNaN creditScore \<and> \<not> isNaN income \<and> \<not> isNaN debtToIncomeRatio \<and> \<not> isNaN age \<and>
            js_ge creditScore (Fin 600) \<and> js_le creditScore (Fin 800) \<and>
            js_gt income (Fin 0) \<and> truthy_text riskRating
         then Some \<lparr>CreditScore = creditScore, Income_H = income, RiskRating_H = the riskRating,
                    DebtToIncomeRatio = debtToIncomeRatio, Age_H = age\<rparr>
         else None)"

definition HexbinPlot_load :: "(string \<Rightarrow> number) \<Rightarrow> csvRow list \<Rightarrow> DataType_H list" where
  "HexbinPlot_load num csv = List.map_filter (HexbinPlot_row num) csv"

text \<open>
  A line whose age and income are no numerals and whose risk rating is empty, and a
  conversion that is right on its two texts.
\<close>

definition unparsable_row :: csvRow where
  "unparsable_row = [''Age'' \<mapsto> ''abc'', ''Income'' \<mapsto> ''n/a'', ''Risk Rating'' \<mapsto> []]"

definition no_numeral :: "string \<Rightarrow> number" where
  "no_numeral s = NaN"

section \<open>The flow graph of the Sankey diagrams\<close>

text \<open>A loaded row of the two flow diagrams; \<open>Income\<close> holds the label of the income range.\<close>

record DataType_S =
  EducationLevel :: string
  PaymentHistory :: string
  Income_S :: string
  RiskRating_S :: string

text \<open>
  The row function of the two flow diagrams (the same text in both). \<open>trim\<close> is the
  language's removal of white space at both ends of a text, a parameter like \<open>num\<close>.
\<close>

definition SankeyPlot_row ::
  "(string \<Rightarrow> number) \<Rightarrow> (string \<Rightarrow> string) \<Rightarrow> csvRow \<Rightarrow> DataType_S option" where
  "SankeyPlot_row num trim d =
     (let educationLevel = d ''Education Level'';
          paymentHistory = d ''Payment History'';
          income = (if truthy_text (d ''Income'') \<and> trim (the (d ''Income'')) \<noteq> []
                    then unary_plus num (d ''Income'') else NaN);
          riskRating = d ''Risk Rating''
      in if truthy_text educationLevel \<and> truthy_text paymentHistory \<and> \<not> isNaN income \<and>
            truthy_text riskRating
         then Some \<lparr>EducationLevel = the educationLevel, PaymentHistory = the paymentHistory,
                    Income_S = assignIncomeToRange income, RiskRating_S = the riskRating\<rparr>
         else None)"

definition SankeyPlot_load ::
  "(string \<Rightarrow> number) \<Rightarrow> (string \<Rightarrow> string) \<Rightarrow> csvRow list \<Rightarrow> DataType_S list" where
  "SankeyPlot_load num trim csv = List.map_filter (SankeyPlot_row num trim) csv"

definition dimensions :: "string list" where
  "dimensions = [''EducationLevel'', ''PaymentHistory'', ''Income'', ''RiskRating'']"

text \<open>\<open>d[dimension]\<close>: the field of that name; any other name has none.\<close>

definition prop_of :: "DataType_S \<Rightarrow> string \<Rightarrow> string option" where
  "prop_of d k =
     (if k = ''EducationLevel'' then Some (EducationLevel d)
      else if k = ''PaymentHistory'' then Some (PaymentHistory d)
      else if k = ''Income'' then Some (Income_S d)
      else if k = ''RiskRating'' then Some (RiskRating_S d)
      else None)"

text \<open>A value inside a template literal: its text, and \<open>undefined\<close> for a missing one.\<close>

definition template :: "string option \<Rightarrow> string" where
  "template x = (case x of None \<Rightarrow> ''undefined'' | Some s \<Rightarrow> s)"

definition node_key :: "string \<Rightarrow> DataType_S \<Rightarrow> string" where
  "node_key dimension d = dimension @ ''_'' @ template (prop_of d dimension)"

definition link_key :: "string \<Rightarrow> string \<Rightarrow> string" where
  "link_key sourceNode targetNode = sourceNode @ ''->'' @ targetNode"

text \<open>
  An entry of \<open>linksMap\<close>. The Homework 3 diagram adds the risk rating of the row that
  created the link.
\<close>

record link =
  source :: string
  target :: string
  link_value :: nat

record link_R = link +
  riskRating :: string

text \<open>
  \<open>nodesSet\<close> is a set that keeps insertion order: a list without repetition. \<open>linksMap\<close> is
  a map that keeps insertion order: an association list, a key at most once.
\<close>

definition set_add :: "'a \<Rightarrow> 'a list \<Rightarrow> 'a list" where
  "set_add x s = (if x \<in> set s then s else s @ [x])"

definition map_has :: "('k \<times> 'v) list \<Rightarrow> 'k \<Rightarrow> bool" where
  "map_has m k = (k \<in> fst ` set m)"

text \<open>The two branches on \<open>linksMap.has(linkKey)\<close>: add 1 to the entry's value, or set a fresh entry.\<close>

definition upsert_link ::
  "string \<Rightarrow> 'a link_scheme \<Rightarrow> (string \<times> 'a link_scheme) list \<Rightarrow> (string \<times> 'a link_scheme) list" where
  "upsert_link linkKey fresh linksMap =
     (if map_has linksMap linkKey
      then map (\<lambda>(k, l). if k = linkKey then (k, l\<lparr>link_value := link_value l + 1\<rparr>) else (k, l)) linksMap
      else linksMap @ [(linkKey, fresh)])"

text \<open>
  The callback of \<open>dimensions.reduce\<close> for a row \<open>d\<close>: the accumulator is the previous
  dimension (\<open>null\<close> at the start), the two collections are the state it updates.
  \<open>fresh\<close> builds the entry of a new link.
\<close>

definition reduce_step ::
  "(string \<Rightarrow> string \<Rightarrow> DataType_S \<Rightarrow> 'a link_scheme) \<Rightarrow> DataType_S \<Rightarrow>
   string option \<times> string list \<times> (string \<times> 'a link_scheme) list \<Rightarrow> string \<Rightarrow>
   string option \<times> string list \<times> (string \<times> 'a link_scheme) list" where
  "reduce_step fresh d acc currDimension =
     (case acc of (prevDimension, nodesSet, linksMap) \<Rightarrow>
        (Some currDimension,
         if truthy_text prevDimension
         then (let sourceNode = node_key (the prevDimension) d;
                   targetNode = node_key currDimension d
               in (set_add targetNode (set_add sourceNode nodesSet),
                   upsert_link (link_key sourceNode targetNode) (fresh sourceNode targetNode d) linksMap))
         else (nodesSet, linksMap)))"

definition add_row ::
  "(string \<Rightarrow> string \<Rightarrow> DataType_S \<Rightarrow> 'a link_scheme) \<Rightarrow>
   string list \<times> (string \<times> 'a link_scheme) list \<Rightarrow> DataType_S \<Rightarrow>
   string list \<times> (string \<times> 'a link_scheme) list" where
  "add_row fresh st d = snd (foldl (reduce_step fresh d) (None, st) dimensions)"

definition collect ::
  "(string \<Rightarrow> string \<Rightarrow> DataType_S \<Rightarrow> 'a link_scheme) \<Rightarrow> DataType_S list \<Rightarrow>
   string list \<times> (string \<times> 'a link_scheme) list" where
  "collect fresh data = foldl (add_row fresh) ([], []) data"

text \<open>\<open>name.split('_')\<close> and the node built from its first two pieces.\<close>

fun split_on :: "char \<Rightarrow> string \<Rightarrow> string list" where
  "split_on c [] = [[]]"
| "split_on c (x # xs) =
     (if x = c then [] # split_on c xs
      else (case split_on c xs of p # ps \<Rightarrow> (x # p) # ps | [] \<Rightarrow> [[x]]))"

definition nth_opt :: "'a list \<Rightarrow> nat \<Rightarrow> 'a option" where
  "nth_opt xs i = (if i < length xs then Some (xs ! i) else None)"

record node =
  name :: string
  dimension :: "string option"
  category :: "string option"

definition make_node :: "string \<Rightarrow> node" where
  "make_node nm =
     (let parts = split_on CHR ''_'' nm
      in \<lparr>name = nm, dimension = nth_opt parts 0, category = nth_opt parts 1\<rparr>)"

definition nodeMap :: "node list \<Rightarrow> string \<Rightarrow> nat option" where
  "nodeMap nodes =
     foldl (\<lambda>m (nd, index). m(name nd \<mapsto> index)) Map.empty (zip nodes [0..<length nodes])"

text \<open>The links handed to the layout: node indices for the node names.\<close>

record indexed_link =
  source_ix :: "nat option"
  target_ix :: "nat option"
  value_ix :: nat

record indexed_link_R = indexed_link +
  riskRating_ix :: string

text \<open>The graph construction of \<open>initChart\<close> in the Homework 2 diagram.\<close>

definition fresh_link :: "string \<Rightarrow> string \<Rightarrow> DataType_S \<Rightarrow> link" where
  "fresh_link sourceNode targetNode d = \<lparr>source = sourceNode, target = targetNode, link_value = 1\<rparr>"

definition initChart_graph :: "DataType_S list \<Rightarrow> node list \<times> indexed_link list" where
  "initChart_graph data =
     (case collect fresh_link data of (nodesSet, linksMap) \<Rightarrow>
        (let nodes = map make_node nodesSet;
             nm = nodeMap nodes
         in (nodes,
             map (\<lambda>l. \<lparr>source_ix = nm (source l), target_ix = nm (target l),
                        value_ix = link_value l\<rparr>)
               (map snd linksMap))))"

text \<open>The same in the Homework 3 diagram, after its filter on the risk rating.\<close>

definition fresh_link_R :: "string \<Rightarrow> string \<Rightarrow> DataType_S \<Rightarrow> link_R" where
  "fresh_link_R sourceNode targetNode d =
     \<lparr>source = sourceNode, target = targetNode, link_value = 1, riskRating = RiskRating_S d\<rparr>"

definition filteredData :: "string \<Rightarrow> DataType_S list \<Rightarrow> DataType_S list" where
  "filteredData flt data = (if flt = ''All'' then data else filter (\<lambda>d. RiskRating_S d = flt) data)"

definition SankeyPlot_graph :: "string \<Rightarrow> DataType_S list \<Rightarrow> node list \<times> indexed_link_R list" where
  "SankeyPlot_graph flt data =
     (case collect fresh_link_R (filteredData flt data) of (nodesSet, linksMap) \<Rightarrow>
        (let nodes = map make_node nodesSet;
             nm = nodeMap nodes
         in (nodes,
             map (\<lambda>l. \<lparr>source_ix = nm (source l), target_ix = nm (target l),
                        value_ix = link_value l, riskRating_ix = riskRating l\<rparr>)
               (map snd linksMap))))"

text \<open>
  Reading a graph: the weight that leaves the node of an index, and the number of rows
  that pass through the node of a dimension and a category.
\<close>

definition out_weight :: "nat \<Rightarrow> 'a indexed_link_scheme list \<Rightarrow> nat" where
  "out_weight i links = sum_list (map value_ix (filter (\<lambda>l. source_ix l = Some i) links))"

definition rows_through :: "string \<Rightarrow> string \<Rightarrow> DataType_S list \<Rightarrow> nat" where
  "rows_through dname cat data = length (filter (\<lambda>d. prop_of d dname = Some cat) data)"

text \<open>Two rows whose education level and payment history differ and contain an arrow.\<close>

definition arrow_row1 :: DataType_S where
  "arrow_row1 = \<lparr>EducationLevel = ''A->PaymentHistory_B'', PaymentHistory = ''C'',
                  Income_S = ''< 20K'', RiskRating_S = ''Low''\<rparr>"

definition arrow_row2 :: DataType_S where
  "arrow_row2 = \<lparr>EducationLevel = ''A'', PaymentHistory = ''B->PaymentHistory_C'',
                  Income_S = ''< 20K'', RiskRating_S = ''Low''\<rparr>"

text \<open>
  Two lines of the file that load as these rows, with a conversion and a trimming that
  are right on the text \<open>5000\<close> of their income.
\<close>

definition arrow_line1 :: csvRow where
  "arrow_line1 = [''Education Level'' \<mapsto> ''A->PaymentHistory_B'', ''Payment History'' \<mapsto> ''C'',
                  ''Income'' \<mapsto> ''5000'', ''Risk Rating'' \<mapsto> ''Low'']"

definition arrow_line2 :: csvRow where
  "arrow_line2 = [''Education Level'' \<mapsto> ''A'', ''Payment History'' \<mapsto> ''B->PaymentHistory_C'',
                  ''Income'' \<mapsto> ''5000'', ''Risk Rating'' \<mapsto> ''Low'']"

definition five_thousand :: "string \<Rightarrow> number" where
  "five_thousand s = Fin 5000"

definition no_trim :: "string \<Rightarrow> string" where
  "no_trim s = s"

text \<open>
  The construction, one adjacent pair of dimensions at a time. The callback runs once per
  pair of neighbours in \<open>dimensions\<close>; an occurrence is such a pair of node keys with
  its row, and \<open>link_step\<close> is what the callback does for one occurrence.
\<close>

definition pairs_of :: "DataType_S \<Rightarrow> (string \<times> string) list" where
  "pairs_of d = map (\<lambda>(p, c). (node_key p d, node_key c d)) (zip dimensions (tl dimensions))"

definition occurrences :: "DataType_S list \<Rightarrow> (string \<times> string \<times> DataType_S) list" where
  "occurrences data = concat (map (\<lambda>d. map (\<lambda>(s, t). (s, t, d)) (pairs_of d)) data)"

definition link_step ::
  "(string \<Rightarrow> string \<Rightarrow> DataType_S \<Rightarrow> 'a link_scheme) \<Rightarrow>
   string list \<times> (string \<times> 'a link_scheme) list \<Rightarrow> string \<times> string \<times> DataType_S \<Rightarrow>
   string list \<times> (string \<times> 'a link_scheme) list" where
  "link_step fresh st occ =
     (case st of (ns, lm) \<Rightarrow> case occ of (s, t, d) \<Rightarrow>
        (set_add t (set_add s ns), upsert_link (link_key s t) (fresh s t d) lm))"

definition run ::
  "(string \<Rightarrow> string \<Rightarrow> DataType_S \<Rightarrow> 'a link_scheme) \<Rightarrow> (string \<times> string \<times> DataType_S) list \<Rightarrow>
   string list \<times> (string \<times> 'a link_scheme) list" where
  "run fresh occ = foldl (link_step fresh) ([], []) occ"

definition key_of :: "string \<times> string \<times> DataType_S \<Rightarrow> string" where
  "key_of occ = link_key (fst occ) (fst (snd occ))"

text \<open>
  A fresh link has the pair as its ends and the value 1. The link keys of a sequence of
  occurrences are distinct when occurrences with the same link key have the same pair of
  node keys. The weight that leaves a node key in \<open>linksMap\<close>.
\<close>

definition well_formed_fresh :: "(string \<Rightarrow> string \<Rightarrow> DataType_S \<Rightarrow> 'a link_scheme) \<Rightarrow> bool" where
  "well_formed_fresh fresh =
     (\<forall>s t d. source (fresh s t d) = s \<and> target (fresh s t d) = t \<and> link_value (fresh s t d) = 1)"

definition distinct_link_keys :: "(string \<times> string \<times> DataType_S) list \<Rightarrow> bool" where
  "distinct_link_keys occ =
     (\<forall>x \<in> set occ. \<forall>y \<in> set occ. key_of x = key_of y \<longrightarrow> fst x = fst y \<and> fst (snd x) = fst (snd y))"

definition weight_from :: "string \<Rightarrow> (string \<times> 'a link_scheme) list \<Rightarrow> nat" where
  "weight_from n lm = sum_list (map (link_value \<circ> snd) (filter (\<lambda>e. source (snd e) = n) lm))"

text \<open>
  A text has an arrow when \<open>-\<close> is somewhere followed by \<open>>\<close>; a row is free of
  arrows when the categories of its dimensions but the last have none. A row of the
  usual kind.
\<close>

fun has_arrow :: "string \<Rightarrow> bool" where
  "has_arrow (x # y # zs) = (x = CHR ''-'' \<and> y = CHR ''>'' \<or> has_arrow (y # zs))"
| "has_arrow _ = False"

definition arrow_free :: "DataType_S \<Rightarrow> bool" where
  "arrow_free d =
     (\<not> has_arrow (EducationLevel d) \<and> \<not> has_arrow (PaymentHistory d) \<and> \<not> has_arrow (Income_S d))"

definition plain_row :: DataType_S where
  "plain_row = \<lparr>EducationLevel = ''PhD'', PaymentHistory = ''Good'', Income_S = ''< 20K'',
                 RiskRating_S = ''Low''\<rparr>"

section \<open>Bucketing: the intervals and the fallback\<close>

lemmas js_cmp = js_le_def js_ge_def js_gt_def

text \<open>
  Claim C1, as the code has it. The age groups are closed on both ends: for every group of
  the age table, an age gets the group's label exactly when it lies between the group's
  minimum and maximum, both included; 27 is in 18-27 and 28 in 28-37. The Homework 2 bar
  chart does the same with its own cut-offs (25, 35, 45, 55). The income ranges are closed
  below and open above: an income gets a range's label exactly when it is at least the
  lower and below the upper bound, so an income equal to a listed upper bound is not in
  the range whose upper bound it is; the income 200000 is in the last range, \<open>> 200K\<close>.
\<close>

theorem bucket_intervals:
  "(\<forall>g \<in> set ageGroups. (categorizeAge v = label g) = in_ageGroup g v) \<and>
   categorizeAge (Fin 27) = ''18-27'' \<and> categorizeAge (Fin 28) = ''28-37'' \<and>
   (categorizeAge_HW2 v = ''18-25'') = (js_ge v (Fin 18) \<and> js_le v (Fin 25)) \<and>
   (categorizeAge_HW2 v = ''26-35'') = (js_ge v (Fin 26) \<and> js_le v (Fin 35)) \<and>
   (categorizeAge_HW2 v = ''36-45'') = (js_ge v (Fin 36) \<and> js_le v (Fin 45)) \<and>
   (categorizeAge_HW2 v = ''46-55'') = (js_ge v (Fin 46) \<and> js_le v (Fin 55)) \<and>
   (categorizeAge_HW2 v = ''56-69'') = (js_ge v (Fin 56) \<and> js_le v (Fin 69)) \<and>
   (\<forall>t \<in> set incomeTable. (assignIncomeToRange v = snd t) = in_incomeRange t v) \<and>
   (\<forall>t \<in> set incomeTable. assignIncomeToRange (snd (fst t)) \<noteq> snd t) \<and>
   assignIncomeToRange (Fin 200000) = ''> 200K''"
proof (intro conjI)
  show "assignIncomeToRange (Fin 200000) = ''> 200K''"
    by (simp add: assignIncomeToRange_def js_cmp)
  show "\<forall>g \<in> set ageGroups. (categorizeAge v = label g) = in_ageGroup g v"
    by (cases v) (auto simp: ageGroups_def categorizeAge_def in_ageGroup_def js_cmp)
  show "\<forall>t \<in> set incomeTable. (assignIncomeToRange v = snd t) = in_incomeRange t v"
    by (cases v)
      (auto simp: incomeTable_def incomeBounds_def incomeRanges_def assignIncomeToRange_def
        in_incomeRange_def js_cmp)
  show "\<forall>t \<in> set incomeTable. assignIncomeToRange (snd (fst t)) \<noteq> snd t"
    by (simp add: incomeTable_def incomeBounds_def incomeRanges_def assignIncomeToRange_def js_cmp)
qed (cases v; simp add: categorizeAge_def categorizeAge_HW2_def js_cmp; fail)+

theorem bucket_intervals_witness:
  "\<lparr>min_age = Fin 18, max_age = Fin 27, label = ''18-27''\<rparr> \<in> set ageGroups \<and>
   in_ageGroup \<lparr>min_age = Fin 18, max_age = Fin 27, label = ''18-27''\<rparr> (Fin 27) \<and>
   categorizeAge (Fin 27) = ''18-27'' \<and>
   ((Fin 20000, Fin 50000), ''20K - 50K'') \<in> set incomeTable \<and>
   \<not> in_incomeRange ((Fin 20000, Fin 50000), ''20K - 50K'') (Fin 50000) \<and>
   assignIncomeToRange (Fin 50000) \<noteq> ''20K - 50K''"
proof -
  let ?g = "\<lparr>min_age = Fin 18, max_age = Fin 27, label = ''18-27''\<rparr>"
  let ?t = "((Fin 20000, Fin 50000), ''20K - 50K'')"
  have g: "?g \<in> set ageGroups"
    by (simp add: ageGroups_def)
  have t: "?t \<in> set incomeTable"
    by (simp add: incomeTable_def incomeBounds_def incomeRanges_def)
  have ing: "in_ageGroup ?g (Fin 27)"
    by (simp add: in_ageGroup_def js_cmp)
  have nint: "\<not> in_incomeRange ?t (Fin 50000)"
    by (simp add: in_incomeRange_def js_cmp)
  from bucket_intervals [of "Fin 27"] g
  have "(categorizeAge (Fin 27) = label ?g) = in_ageGroup ?g (Fin 27)"
    by blast
  with ing have a: "categorizeAge (Fin 27) = ''18-27''"
    by simp
  from bucket_intervals [of "Fin 50000"] t
  have "(assignIncomeToRange (Fin 50000) = snd ?t) = in_incomeRange ?t (Fin 50000)"
    by blast
  with nint have b: "assignIncomeToRange (Fin 50000) \<noteq> ''20K - 50K''"
    by simp
  from g t ing nint a b show ?thesis
    by blast
qed

text \<open>
  Against claim C1 as stated: the income 50000 lies in the closed interval from 20000 to
  50000, the listed range 20K - 50K, and is assigned to the next range; and the Homework 2
  bar chart puts the age 27 into its group 26-35.
\<close>

theorem income_upper_bound_in_next_range:
  "js_ge (Fin 50000) (Fin 20000) \<and> js_le (Fin 50000) (Fin 50000) \<and>
   assignIncomeToRange (Fin 50000) = ''50K - 100K'' \<and>
   categorizeAge_HW2 (Fin 27) = ''26-35''"
  by (simp add: assignIncomeToRange_def categorizeAge_HW2_def js_cmp)

text \<open>
  Claim C6, as the code has it. \<open>categorizeAge\<close> returns the label of the first group of
  the age table that contains the age, the groups closed on both ends, and \<open>Unknown\<close>
  exactly for the ages that no group contains (so does the Homework 2 version, for its
  groups). \<open>assignIncomeToRange\<close> returns the label of the first income interval that
  contains the income, the intervals closed below and open above, and the last label,
  \<open>> 200K\<close>, exactly for the incomes that no such interval contains.
\<close>

theorem bucket_first_match_or_fallback:
  "categorizeAge v = bucket_spec in_ageGroup label ageGroups ''Unknown'' v \<and>
   (categorizeAge v = ''Unknown'') = (\<not> (\<exists>g \<in> set ageGroups. in_ageGroup g v)) \<and>
   (categorizeAge_HW2 v = ''Unknown'') =
     (\<not> (js_ge v (Fin 18) \<and> js_le v (Fin 25) \<or> js_ge v (Fin 26) \<and> js_le v (Fin 35) \<or>
         js_ge v (Fin 36) \<and> js_le v (Fin 45) \<or> js_ge v (Fin 46) \<and> js_le v (Fin 55) \<or>
         js_ge v (Fin 56) \<and> js_le v (Fin 69))) \<and>
   assignIncomeToRange v = bucket_spec in_incomeRange snd incomeTable (last incomeRanges) v \<and>
   last incomeRanges = ''> 200K'' \<and>
   (assignIncomeToRange v = ''> 200K'') = (\<not> (\<exists>t \<in> set incomeTable. in_incomeRange t v))"
proof (intro conjI)
  show "categorizeAge v = bucket_spec in_ageGroup label ageGroups ''Unknown'' v"
    by (simp add: bucket_spec_def ageGroups_def categorizeAge_def in_ageGroup_def)
  show "(categorizeAge v = ''Unknown'') = (\<not> (\<exists>g \<in> set ageGroups. in_ageGroup g v))"
    by (simp add: ageGroups_def categorizeAge_def in_ageGroup_def)
  show "(categorizeAge_HW2 v = ''Unknown'') =
     (\<not> (js_ge v (Fin 18) \<and> js_le v (Fin 25) \<or> js_ge v (Fin 26) \<and> js_le v (Fin 35) \<or>
         js_ge v (Fin 36) \<and> js_le v (Fin 45) \<or> js_ge v (Fin 46) \<and> js_le v (Fin 55) \<or>
         js_ge v (Fin 56) \<and> js_le v (Fin 69)))"
    by (simp add: categorizeAge_HW2_def)
  show "assignIncomeToRange v = bucket_spec in_incomeRange snd incomeTable (last incomeRanges) v"
    by (cases v)
      (simp_all add: bucket_spec_def incomeTable_def incomeBounds_def incomeRanges_def
        assignIncomeToRange_def in_incomeRange_def js_cmp)
  show "last incomeRanges = ''> 200K''"
    by (simp add: incomeRanges_def)
  show "(assignIncomeToRange v = ''> 200K'') = (\<not> (\<exists>t \<in> set incomeTable. in_incomeRange t v))"
    by (cases v)
      (simp_all add: incomeTable_def incomeBounds_def incomeRanges_def
        assignIncomeToRange_def in_incomeRange_def js_cmp)
qed

text \<open>
  Against claim C6 as stated, with the closed intervals of section 4.1: the first closed
  interval of the income table that contains the income 50000 is 20K - 50K, and the code
  returns 50K - 100K; the income 200000 is in the closed interval 100K - 200K, a listed
  bounded interval, and the code returns the fallback \<open>> 200K\<close>.
\<close>

theorem closed_income_interval_not_returned:
  "bucket_spec in_incomeRange_closed snd incomeTable (last incomeRanges) (Fin 50000) = ''20K - 50K'' \<and>
   assignIncomeToRange (Fin 50000) = ''50K - 100K'' \<and>
   in_incomeRange_closed ((Fin 100000, Fin 200000), ''100K - 200K'') (Fin 200000) \<and>
   bucket_spec in_incomeRange_closed snd incomeTable (last incomeRanges) (Fin 200000) = ''100K - 200K'' \<and>
   assignIncomeToRange (Fin 200000) = ''> 200K''"
  by (simp add: bucket_spec_def incomeTable_def incomeBounds_def incomeRanges_def
      in_incomeRange_closed_def assignIncomeToRange_def js_cmp)

section \<open>Grouping\<close>

lemma d3_group_Nil: "d3_group key [] = []"
  by (simp add: d3_group_def)

lemma d3_group_snoc: "d3_group key (vs @ [v]) = push_group (key v) v (d3_group key vs)"
  by (simp add: d3_group_def)

lemma map_of_push_group:
  "map_of (push_group k v gs) k' =
     (if k' = k then Some ((case map_of gs k of None \<Rightarrow> [] | Some g \<Rightarrow> g) @ [v]) else map_of gs k')"
  by (induction gs) auto

text \<open>The group of a key holds the values with that key, in input order.\<close>

lemma map_of_d3_group:
  "map_of (d3_group key vs) k =
     (if k \<in> key ` set vs then Some (filter (\<lambda>v. key v = k) vs) else None)"
proof (induction vs rule: rev_induct)
  case Nil
  show ?case by (simp add: d3_group_Nil)
next
  case (snoc v vs)
  show ?case
  proof (cases "k = key v")
    case True
    have "key v \<notin> key ` set vs \<Longrightarrow> filter (\<lambda>w. key w = key v) vs = []"
      by (induction vs) auto
    with snoc True show ?thesis
      by (simp add: d3_group_snoc map_of_push_group)
  next
    case False
    with snoc show ?thesis
      by (auto simp: d3_group_snoc map_of_push_group)
  qed
qed

lemma keys_push_group:
  "map fst (push_group k v gs) = (if k \<in> fst ` set gs then map fst gs else map fst gs @ [k])"
  by (induction gs) force+

lemma distinct_d3_group: "distinct (map fst (d3_group key vs))"
proof (induction vs rule: rev_induct)
  case Nil
  show ?case by (simp add: d3_group_Nil)
next
  case (snoc v vs)
  then show ?case
    by (simp add: d3_group_snoc keys_push_group)
qed

lemma in_d3_group:
  "(k, g) \<in> set (d3_group key vs) \<longleftrightarrow> k \<in> key ` set vs \<and> g = filter (\<lambda>v. key v = k) vs"
proof -
  have "(k, g) \<in> set (d3_group key vs) \<longleftrightarrow> map_of (d3_group key vs) k = Some g"
    by (simp add: distinct_d3_group)
  then show ?thesis
    by (auto simp: map_of_d3_group)
qed


lemma map_of_d3_rollup:
  "map_of (d3_rollup reduce key1 key2 vs) k =
     map_option (\<lambda>g. map (\<lambda>(j, h). (j, reduce h)) (d3_group key2 g)) (map_of (d3_group key1 vs) k)"
  by (simp add: d3_rollup_def map_of_map)

text \<open>A cell is there exactly when a value has both keys; it reduces the values that do.\<close>

lemma lookup_cell_rollup:
  "lookup_cell (d3_rollup reduce key1 key2 vs) k j =
     (if \<exists>v \<in> set vs. key1 v = k \<and> key2 v = j
      then Some (reduce (filter (\<lambda>v. key2 v = j) (filter (\<lambda>v. key1 v = k) vs)))
      else None)"
  by (auto simp: lookup_cell_def map_of_d3_rollup map_of_d3_group map_of_map image_iff
      split: option.splits)

lemma in_cells_d3_rollup:
  assumes "c \<in> set (cells (d3_rollup reduce key1 key2 vs))"
  obtains k j where "\<exists>v \<in> set vs. key1 v = k \<and> key2 v = j"
    and "c = reduce (filter (\<lambda>v. key2 v = j) (filter (\<lambda>v. key1 v = k) vs))"
proof -
  from assms obtain k g j h where kg: "(k, g) \<in> set (d3_group key1 vs)"
    and jh: "(j, h) \<in> set (d3_group key2 g)" and c: "c = reduce h"
    by (auto simp: cells_def d3_rollup_def)
  from kg have g: "g = filter (\<lambda>v. key1 v = k) vs"
    by (simp add: in_d3_group)
  from jh have j: "j \<in> key2 ` set g" and h: "h = filter (\<lambda>v. key2 v = j) g"
    by (simp_all add: in_d3_group)
  from j g have "\<exists>v \<in> set vs. key1 v = k \<and> key2 v = j"
    by auto
  with c h g that show thesis
    by blast
qed

section \<open>Rounding\<close>

lemma round_even_of_int: "round_even (of_int j) = j"
  by (simp add: round_even_def)

lemma bitlen_eqI:
  assumes "2 ^ k \<le> n" and "n < 2 ^ Suc k"
  shows "bitlen n = int k + 1"
proof (rule antisym)
  from assms(2) show "bitlen n \<le> int k + 1"
    by (simp add: bitlen_le_iff_power nat_add_distrib)
  from assms(1) show "int k + 1 \<le> bitlen n"
    by (simp add: bitlen_ge_iff_power nat_add_distrib)
qed

lemma binade_eqI:
  assumes "2 ^ k \<le> \<bar>x\<bar>" and "\<bar>x\<bar> < 2 ^ Suc k"
  shows "binade x = int k"
proof -
  have "(1::real) \<le> 2 ^ k"
    by simp
  with assms(1) have one: "1 \<le> \<bar>x\<bar>"
    by linarith
  have "(2::int) ^ k \<le> \<lfloor>\<bar>x\<bar>\<rfloor>"
    using assms(1) by (simp add: le_floor_iff)
  moreover have "\<lfloor>\<bar>x\<bar>\<rfloor> < 2 ^ Suc k"
    using assms(2) by (simp add: floor_less_iff)
  ultimately have "bitlen \<lfloor>\<bar>x\<bar>\<rfloor> = int k + 1"
    by (rule bitlen_eqI)
  with one show ?thesis
    by (simp add: binade_def)
qed

text \<open>\<open>binade x\<close> is the exponent of \<open>x\<close>.\<close>

lemma binade_bounds:
  assumes "x \<noteq> 0"
  shows "pow2 (binade x) \<le> \<bar>x\<bar> \<and> \<bar>x\<bar> < pow2 (binade x + 1)"
proof (cases "1 \<le> \<bar>x\<bar>")
  case True
  define N where "N = \<lfloor>\<bar>x\<bar>\<rfloor>"
  define k where "k = bitlen N"
  from True have N: "1 \<le> N"
    by (simp add: N_def le_floor_iff)
  then have k: "1 \<le> k"
    by (simp add: k_def bitlen_ge_iff_power)
  from N have bounds: "2 ^ nat (k - 1) \<le> N" "N < 2 ^ nat k"
    using bitlen_bounds [of N] by (simp_all add: k_def)
  have "real_of_int (2 ^ nat (k - 1)) \<le> of_int N"
    using bounds(1) by (simp only: of_int_le_iff)
  also have "\<dots> \<le> \<bar>x\<bar>"
    by (simp add: N_def)
  finally have lo: "2 ^ nat (k - 1) \<le> \<bar>x\<bar>"
    by simp
  have "\<bar>x\<bar> < of_int (N + 1)"
    by (simp add: N_def)
  also have "real_of_int (N + 1) \<le> of_int (2 ^ nat k)"
    using bounds(2) by (simp only: of_int_le_iff)
  finally have hi: "\<bar>x\<bar> < 2 ^ nat k"
    by simp
  from True k lo hi show ?thesis
    by (simp add: binade_def pow2_def N_def [symmetric] k_def [symmetric])
next
  case False
  define y where "y = 1 / \<bar>x\<bar>"
  define M where "M = \<lceil>y\<rceil> - 1"
  define k where "k = bitlen M"
  from False assms have y: "1 < y"
    by (simp add: y_def)
  then have M: "1 \<le> M"
    by (simp add: M_def less_ceiling_iff)
  then have k: "1 \<le> k"
    by (simp add: k_def bitlen_ge_iff_power)
  from M have bounds: "2 ^ nat (k - 1) \<le> M" "M < 2 ^ nat k"
    using bitlen_bounds [of M] by (simp_all add: k_def)
  have "y \<le> of_int (M + 1)"
    by (simp add: M_def)
  also have "real_of_int (M + 1) \<le> of_int (2 ^ nat k)"
    using bounds(2) by (simp only: of_int_le_iff)
  finally have "y \<le> 2 ^ nat k"
    by simp
  then have lo: "inverse (2 ^ nat k) \<le> \<bar>x\<bar>"
    using assms by (simp add: y_def field_simps)
  have "real_of_int (2 ^ nat (k - 1)) \<le> of_int M"
    using bounds(1) by (simp only: of_int_le_iff)
  also have "real_of_int M < y"
    by (simp add: M_def) linarith
  finally have "2 ^ nat (k - 1) < y"
    by simp
  then have hi: "\<bar>x\<bar> < inverse (2 ^ nat (k - 1))"
    using assms by (simp add: y_def field_simps)
  have neg: "\<not> 0 \<le> - k" and "- k + 1 \<le> 0" and "nat (- (- k + 1)) = nat (k - 1)" and "nat (- (- k)) = nat k"
    using k by simp_all
  with False lo hi show ?thesis
    by (cases "k = 1")
      (simp_all add: binade_def pow2_def y_def [symmetric] M_def [symmetric] k_def [symmetric])
qed

lemma round64_binade:
  assumes "2 ^ k \<le> \<bar>x\<bar>" and "\<bar>x\<bar> < 2 ^ Suc k"
  shows "round64 x =
     (let u = pow2 (int k - 52); y = of_int (round_even (x / u)) * u
      in if 2 ^ 1024 \<le> \<bar>y\<bar> then (if 0 < y then PInf else NInf) else Fin y)"
proof -
  have "(0::real) < 2 ^ k"
    by simp
  with assms(1) have "0 < \<bar>x\<bar>"
    by linarith
  then have "x \<noteq> 0"
    by simp
  then show ?thesis
    by (simp add: round64_def binade_eqI [OF assms])
qed

text \<open>
  A finite result of \<open>round64\<close> is at most half the spacing away from the exact number.
\<close>

lemma round_even_nearest: "\<bar>of_int (round_even q) - q\<bar> \<le> 1 / 2"
proof -
  have "of_int \<lfloor>q\<rfloor> \<le> q" and "q < of_int \<lfloor>q\<rfloor> + 1"
    by linarith+
  then show ?thesis
    by (auto simp: round_even_def Let_def)
qed

lemma round64_near:
  assumes "x \<noteq> 0" and "round64 x = Fin y"
  shows "\<bar>y - x\<bar> \<le> pow2 (max (binade x) (- 1022) - 52) / 2"
proof -
  define u where "u = pow2 (max (binade x) (- 1022) - 52)"
  have u: "0 < u"
    by (simp add: u_def pow2_def)
  from assms have y: "y = of_int (round_even (x / u)) * u"
    by (simp add: round64_def Let_def u_def split: if_splits)
  have "\<bar>of_int (round_even (x / u)) - x / u\<bar> \<le> 1 / 2"
    by (rule round_even_nearest)
  then have "\<bar>of_int (round_even (x / u)) - x / u\<bar> * u \<le> 1 / 2 * u"
    using u by (simp only: mult_le_cancel_right_pos)
  moreover have "\<bar>of_int (round_even (x / u)) - x / u\<bar> * u = \<bar>y - x\<bar>"
  proof -
    have "\<bar>of_int (round_even (x / u)) - x / u\<bar> * u = \<bar>(of_int (round_even (x / u)) - x / u) * u\<bar>"
      using u by (simp add: abs_mult)
    also have "(of_int (round_even (x / u)) - x / u) * u = y - x"
      using u by (simp add: y left_diff_distrib)
    finally show ?thesis .
  qed
  ultimately show ?thesis
    by (simp add: u_def)
qed

text \<open>Every whole number of magnitude up to \<open>2 ^ 53\<close> is a binary64 number.\<close>

lemma round64_int:
  assumes "\<bar>n\<bar> \<le> 2 ^ 53"
  shows "round64 (of_int n) = Fin (of_int n)"
proof (cases "n = 0")
  case True
  then show ?thesis by (simp add: round64_def)
next
  case False
  define a where "a = \<bar>n\<bar>"
  define b where "b = bitlen a"
  from False have a: "1 \<le> a" "a \<le> 2 ^ 53"
    using assms by (simp_all add: a_def)
  have b1: "1 \<le> b"
    using a by (simp add: b_def bitlen_ge_iff_power)
  have b54: "b \<le> 54"
    using a by (simp add: b_def bitlen_le_iff_power)
  have bin: "binade (of_int n) = b - 1"
  proof -
    have "\<bar>real_of_int n\<bar> = of_int a"
      by (simp add: a_def)
    with a show ?thesis
      by (simp add: binade_def b_def)
  qed
  have mx: "max (b - 1) (- 1022) - 52 = b - 53"
    using b1 by simp
  have y: "of_int (round_even (of_int n / pow2 (b - 53))) * pow2 (b - 53) = (of_int n :: real)"
  proof (cases "b \<le> 53")
    case True
    define p :: real where "p = 2 ^ nat (53 - b)"
    have p: "0 < p"
      by (simp add: p_def)
    from True have u: "pow2 (b - 53) = inverse p"
      by (cases "b = 53") (simp_all add: pow2_def p_def)
    have "real_of_int n / inverse p = of_int (n * 2 ^ nat (53 - b))"
      by (simp add: p_def divide_inverse)
    then have "of_int (round_even (of_int n / inverse p)) = real_of_int n * p"
      by (simp only: round_even_of_int) (simp add: p_def)
    with p show ?thesis
      by (simp add: u)
  next
    case False
    with b54 have b: "b = 54"
      by simp
    then have "2 ^ 53 \<le> a"
      using bitlen_ge_iff_power [of 54 a] by (simp add: b_def)
    with a have "a = 2 ^ 53"
      by simp
    then have "n = 2 ^ 53 \<or> n = - (2 ^ 53)"
      by (auto simp: a_def abs_if split: if_splits)
    then show ?thesis
      by (auto simp: b pow2_def round_even_def)
  qed
  have "\<bar>real_of_int n\<bar> < 2 ^ 1024"
  proof -
    have "\<bar>real_of_int n\<bar> = of_int a"
      by (simp add: a_def)
    also have "\<dots> \<le> 2 ^ 53"
      using a(2) by (metis of_int_le_numeral_power_cancel_iff)
    also have "\<dots> < (2::real) ^ 1024"
      by (simp add: power_strict_increasing)
    finally show ?thesis .
  qed
  with False show ?thesis
    by (simp add: round64_def bin mx y Let_def)
qed

lemma round64_Ints: "x \<in> \<int> \<Longrightarrow> \<bar>x\<bar> \<le> 2 ^ 53 \<Longrightarrow> round64 x = Fin x"
proof -
  assume "x \<in> \<int>" and le: "\<bar>x\<bar> \<le> 2 ^ 53"
  then obtain n where x: "x = of_int n"
    by (auto simp: Ints_def)
  with le have "real_of_int \<bar>n\<bar> \<le> 2 ^ 53"
    by simp
  then have "\<bar>n\<bar> \<le> 2 ^ 53"
    by (metis of_int_le_numeral_power_cancel_iff)
  then show ?thesis
    unfolding x by (rule round64_int)
qed

text \<open>
  Above \<open>2 ^ 53\<close> the binary64 numbers are 2 apart: an odd whole number there is a tie
  between its two neighbours.
\<close>

lemma round64_1e16: "round64 10000000000000000 = Fin 10000000000000000"
  by (subst round64_binade [of 53]) (simp_all add: pow2_def round_even_def Let_def)

lemma round64_1e16_1: "round64 10000000000000001 = Fin 10000000000000000"
  by (subst round64_binade [of 53]) (simp_all add: pow2_def round_even_def Let_def)

lemma round64_1e16_2: "round64 10000000000000002 = Fin 10000000000000002"
  by (subst round64_binade [of 53]) (simp_all add: pow2_def round_even_def Let_def)

lemma round64_1e16_3: "round64 10000000000000003 = Fin 10000000000000004"
  by (subst round64_binade [of 53]) (simp_all add: pow2_def round_even_def Let_def)

lemmas round64_simps = round64_Ints round64_1e16 round64_1e16_1 round64_1e16_2 round64_1e16_3

section \<open>Sums over the groups\<close>

text \<open>
  \<open>d3.sum\<close> adds from the left and rounds after every addition. It adds without rounding
  when the summands are whole numbers (or \<open>NaN\<close>, which it skips) whose magnitudes,
  together with that of the start value, add up to \<open>2 ^ 53\<close> at most.
\<close>

lemma d3_sum_from_exact:
  assumes "\<forall>x \<in> set xs. f x = NaN \<and> G x = 0 \<or> f x = Fin (of_int (G x))"
    and "\<bar>s\<bar> + (\<Sum>x\<leftarrow>xs. \<bar>G x\<bar>) \<le> 2 ^ 53"
  shows "d3_sum_from (Fin (of_int s)) f xs = Fin (of_int (s + (\<Sum>x\<leftarrow>xs. G x)))"
  using assms
proof (induction xs arbitrary: s)
  case Nil
  show ?case by simp
next
  case (Cons x xs)
  from Cons.prems(1) have fx: "f x = NaN \<and> G x = 0 \<or> f x = Fin (of_int (G x))"
    and rest: "\<forall>x \<in> set xs. f x = NaN \<and> G x = 0 \<or> f x = Fin (of_int (G x))"
    by simp_all
  have nn: "0 \<le> (\<Sum>x\<leftarrow>xs. \<bar>G x\<bar>)"
    by (rule sum_list_nonneg) auto
  have step: "(if truthy_number (f x) then js_add (Fin (of_int s)) (f x) else Fin (of_int s)) =
              Fin (of_int (s + G x))"
  proof (cases "truthy_number (f x)")
    case True
    with fx have "f x = Fin (of_int (G x))"
      by (auto simp: truthy_number_def)
    moreover have "\<bar>s + G x\<bar> \<le> 2 ^ 53"
      using Cons.prems(2) nn by simp
    then have "round64 (of_int (s + G x)) = Fin (of_int (s + G x))"
      by (rule round64_int)
    ultimately show ?thesis
      using True by simp
  next
    case False
    with fx have "G x = 0"
      by (auto simp: truthy_number_def)
    with False show ?thesis
      by simp
  qed
  have "\<bar>s + G x\<bar> + (\<Sum>x\<leftarrow>xs. \<bar>G x\<bar>) \<le> 2 ^ 53"
    using Cons.prems(2) by simp
  from Cons.IH [OF rest this] step show ?case
    by (simp add: add.assoc)
qed

lemma d3_sum_exact:
  assumes "\<forall>x \<in> set xs. f x = NaN \<and> G x = 0 \<or> f x = Fin (of_int (G x))"
    and "(\<Sum>x\<leftarrow>xs. \<bar>G x\<bar>) \<le> 2 ^ 53"
  shows "d3_sum f xs = Fin (of_int (\<Sum>x\<leftarrow>xs. G x))"
  using d3_sum_from_exact [of xs f G 0] assms by (simp add: d3_sum_def)

lemma d3_sum_from_map: "d3_sum_from s f (map r xs) = d3_sum_from s (\<lambda>x. f (r x)) xs"
  by (induction xs arbitrary: s) simp_all

lemma exact_incomes_d3_sum:
  assumes "exact_incomes rows"
  shows "d3_sum Income rows = Fin (of_int (\<Sum>d\<leftarrow>rows. income_int d))"
proof (rule d3_sum_exact)
  from assms show "\<forall>d \<in> set rows. Income d = NaN \<and> income_int d = 0 \<or>
                     Income d = Fin (of_int (income_int d))"
    by (auto simp: exact_incomes_def list_all_iff income_int_def)
  from assms show "(\<Sum>d\<leftarrow>rows. \<bar>income_int d\<bar>) \<le> 2 ^ 53"
    by (simp add: exact_incomes_def)
qed

lemma sum_list_filter_le:
  fixes h :: "'a \<Rightarrow> int"
  assumes "\<And>x. 0 \<le> h x"
  shows "(\<Sum>x\<leftarrow>filter P xs. h x) \<le> (\<Sum>x\<leftarrow>xs. h x)"
  by (induction xs) (simp_all add: assms add_increasing)

lemma exact_incomes_filter:
  assumes "exact_incomes rows"
  shows "exact_incomes (filter P rows)"
proof -
  have "(\<Sum>d\<leftarrow>filter P rows. \<bar>income_int d\<bar>) \<le> (\<Sum>d\<leftarrow>rows. \<bar>income_int d\<bar>)"
    by (rule sum_list_filter_le) simp
  with assms show ?thesis
    by (auto simp: exact_incomes_def list_all_iff)
qed

lemma sum_list_map_perm:
  fixes h :: "'a \<Rightarrow> int"
  assumes "mset xs = mset ys"
  shows "sum_list (map h xs) = sum_list (map h ys)"
proof -
  have "mset (map h xs) = mset (map h ys)"
    using assms by simp
  then show ?thesis
    by (metis sum_mset_sum_list)
qed

lemma exact_incomes_perm:
  assumes "mset rows = mset rows'" and "exact_incomes rows"
  shows "exact_incomes rows'"
proof -
  from assms(1) have "set rows = set rows'"
    by (rule mset_eq_setD)
  moreover from assms(1) have "(\<Sum>d\<leftarrow>rows. \<bar>income_int d\<bar>) = (\<Sum>d\<leftarrow>rows'. \<bar>income_int d\<bar>)"
    by (rule sum_list_map_perm)
  ultimately show ?thesis
    using assms(2) by (simp add: exact_incomes_def list_all_iff)
qed

text \<open>Exact incomes: a group of the rows has the same reduction in any order.\<close>

lemma income_reducer_perm:
  assumes "mset vs = mset ws" and "exact_incomes vs"
  shows "income_reducer vs = income_reducer ws"
proof -
  from assms have "exact_incomes ws"
    by (rule exact_incomes_perm)
  then have "d3_sum Income ws = Fin (of_int (\<Sum>d\<leftarrow>ws. income_int d))"
    by (rule exact_incomes_d3_sum)
  moreover from assms(2) have "d3_sum Income vs = Fin (of_int (\<Sum>d\<leftarrow>vs. income_int d))"
    by (rule exact_incomes_d3_sum)
  moreover from assms(1) have "(\<Sum>d\<leftarrow>vs. income_int d) = (\<Sum>d\<leftarrow>ws. income_int d)"
    by (rule sum_list_map_perm)
  moreover from assms(1) have "length vs = length ws"
    by (rule mset_eq_length)
  ultimately show ?thesis
    by (simp add: income_reducer_def)
qed

lemma sum_push_group:
  fixes h :: "'a \<Rightarrow> 'm::comm_monoid_add"
  shows "(\<Sum>kg\<leftarrow>push_group k v gs. sum_list (map h (snd kg))) =
         (\<Sum>kg\<leftarrow>gs. sum_list (map h (snd kg))) + h v"
  by (induction gs) (auto simp: add_ac)

lemma sum_d3_group:
  fixes h :: "'a \<Rightarrow> 'm::comm_monoid_add"
  shows "(\<Sum>kg\<leftarrow>d3_group key vs. sum_list (map h (snd kg))) = sum_list (map h vs)"
  by (induction vs rule: rev_induct) (simp_all add: d3_group_Nil d3_group_snoc sum_push_group)

lemma sum_list_concat_map:
  fixes F :: "'b \<Rightarrow> 'm::monoid_add"
  shows "sum_list (concat (map (\<lambda>x. map F (G x)) xs)) = (\<Sum>x\<leftarrow>xs. sum_list (map F (G x)))"
  by (induction xs) simp_all

lemma cells_d3_rollup:
  "map F (cells (d3_rollup reduce key1 key2 vs)) =
     concat (map (\<lambda>kg. map (\<lambda>jh. F (reduce (snd jh))) (d3_group key2 (snd kg))) (d3_group key1 vs))"
  by (simp add: cells_def d3_rollup_def map_concat comp_def case_prod_unfold)

text \<open>What is additive over a group is conserved by the two-level grouping.\<close>

lemma sum_cells_d3_rollup:
  fixes h :: "'a \<Rightarrow> 'm::comm_monoid_add"
  assumes "\<And>g. F (reduce g) = sum_list (map h g)"
  shows "sum_list (map F (cells (d3_rollup reduce key1 key2 vs))) = sum_list (map h vs)"
proof -
  have "sum_list (map F (cells (d3_rollup reduce key1 key2 vs))) =
        (\<Sum>kg\<leftarrow>d3_group key1 vs. \<Sum>jh\<leftarrow>d3_group key2 (snd kg). sum_list (map h (snd jh)))"
    by (simp add: cells_d3_rollup sum_list_concat_map assms)
  also have "\<dots> = (\<Sum>kg\<leftarrow>d3_group key1 vs. sum_list (map h (snd kg)))"
    by (simp add: sum_d3_group)
  also have "\<dots> = sum_list (map h vs)"
    by (rule sum_d3_group)
  finally show ?thesis .
qed

text \<open>
  The cells of a two-level aggregate are the reductions of groups of the values: every
  group holds the values that a test selects, and together the groups hold every value
  once.
\<close>

lemma cells_groups:
  obtains ls where "cells (d3_rollup reduce key1 key2 vs) = map reduce ls"
    and "\<And>h :: 'a \<Rightarrow> int. (\<Sum>g\<leftarrow>ls. sum_list (map h g)) = sum_list (map h vs)"
    and "\<And>g. g \<in> set ls \<Longrightarrow> \<exists>P. g = filter P vs"
proof
  let ?ls = "concat (map (\<lambda>kg. map snd (d3_group key2 (snd kg))) (d3_group key1 vs))"
  show "cells (d3_rollup reduce key1 key2 vs) = map reduce ?ls"
    by (simp add: cells_def d3_rollup_def map_concat comp_def case_prod_unfold)
  show "(\<Sum>g\<leftarrow>?ls. sum_list (map h g)) = sum_list (map h vs)" for h :: "'a \<Rightarrow> int"
  proof -
    have "(\<Sum>g\<leftarrow>?ls. sum_list (map h g)) =
          (\<Sum>kg\<leftarrow>d3_group key1 vs. \<Sum>jh\<leftarrow>d3_group key2 (snd kg). sum_list (map h (snd jh)))"
      by (simp add: map_concat comp_def sum_list_concat_map)
    also have "\<dots> = (\<Sum>kg\<leftarrow>d3_group key1 vs. sum_list (map h (snd kg)))"
      by (simp add: sum_d3_group)
    also have "\<dots> = sum_list (map h vs)"
      by (rule sum_d3_group)
    finally show ?thesis .
  qed
  show "\<exists>P. g = filter P vs" if "g \<in> set ?ls" for g
  proof -
    from that obtain k gk j where kg: "(k, gk) \<in> set (d3_group key1 vs)"
      and jh: "(j, g) \<in> set (d3_group key2 gk)"
      by auto
    from kg have "gk = filter (\<lambda>v. key1 v = k) vs"
      by (simp add: in_d3_group)
    moreover from jh have "g = filter (\<lambda>v. key2 v = j) gk"
      by (simp add: in_d3_group)
    ultimately have "g = filter (\<lambda>v. key1 v = k \<and> key2 v = j) vs"
      by (simp add: conj_commute)
    then show ?thesis
      by blast
  qed
qed

section \<open>The aggregate of the bar chart\<close>

lemma scenario_agg: "aggregatedData scenario =
  [(''28-37'', [(Some ''Low'', \<lparr>totalIncome = Fin 400, count_c = 2\<rparr>)]),
   (''38-47'', [(Some ''High'', \<lparr>totalIncome = Fin 200, count_c = 1\<rparr>)])]"
  by (simp add: scenario_def aggregatedData_def d3_rollup_def d3_group_def income_reducer_def
      d3_sum_def truthy_number_def categorizeAge_def js_cmp round64_Ints)

lemma scenario_exact: "exact_incomes scenario"
  by (simp add: exact_incomes_def scenario_def income_int_def)


lemma big_rows_agg: "aggregatedData big_rows =
  [(''28-37'', [(Some ''Low'', \<lparr>totalIncome = Fin 10000000000000000, count_c = 3\<rparr>)])]"
  by (simp add: big_rows_def aggregatedData_def d3_rollup_def d3_group_def income_reducer_def
      d3_sum_def truthy_number_def round64_simps)

lemma rev_big_rows_agg: "aggregatedData (rev big_rows) =
  [(''28-37'', [(Some ''Low'', \<lparr>totalIncome = Fin 10000000000000002, count_c = 3\<rparr>)])]"
  by (simp add: big_rows_def aggregatedData_def d3_rollup_def d3_group_def income_reducer_def
      d3_sum_def truthy_number_def round64_simps)

lemma mixed_rows_agg: "aggregatedData mixed_rows =
  [(''28-37'', [(Some ''Low'', \<lparr>totalIncome = Fin 10000000000000000, count_c = 2\<rparr>)]),
   (''38-47'', [(Some ''High'', \<lparr>totalIncome = Fin 2, count_c = 2\<rparr>)])]"
  by (simp add: mixed_rows_def aggregatedData_def d3_rollup_def d3_group_def income_reducer_def
      d3_sum_def truthy_number_def round64_simps)





text \<open>
  Claim C4, as the code has it. For every sequence of rows and every pair of key functions,
  the counts of the cells of the two-level aggregate add up to the number of rows. When
  the incomes are exact (every income a whole number or \<open>NaN\<close>, the magnitudes adding up
  to \<open>2 ^ 53\<close> at most), the sums of the cells add up to the sum of the incomes of all
  rows, both as \<open>d3.sum\<close> computes them, and this is the sum of the incomes without any
  rounding (a row whose income is \<open>NaN\<close> adds nothing, in a cell as in the whole).
\<close>

theorem aggregate_conservation:
  "sum_list (map count_c (cells (d3_rollup income_reducer key1 key2 rows))) = length rows \<and>
   (exact_incomes rows \<longrightarrow>
      d3_sum totalIncome (cells (d3_rollup income_reducer key1 key2 rows)) = d3_sum Income rows \<and>
      d3_sum Income rows = Fin (of_int (\<Sum>d\<leftarrow>rows. income_int d)))"
proof (intro conjI impI)
  have "sum_list (map count_c (cells (d3_rollup income_reducer key1 key2 rows))) =
        sum_list (map (\<lambda>_. 1::nat) rows)"
    by (rule sum_cells_d3_rollup) (simp add: income_reducer_def sum_list_triv)
  then show "sum_list (map count_c (cells (d3_rollup income_reducer key1 key2 rows))) = length rows"
    by (simp add: sum_list_triv)
next
  assume ex: "exact_incomes rows"
  then show whole: "d3_sum Income rows = Fin (of_int (\<Sum>d\<leftarrow>rows. income_int d))"
    by (rule exact_incomes_d3_sum)
  obtain ls where cs: "cells (d3_rollup income_reducer key1 key2 rows) = map income_reducer ls"
    and sums: "\<And>h :: DataType \<Rightarrow> int. (\<Sum>g\<leftarrow>ls. sum_list (map h g)) = sum_list (map h rows)"
    and groups: "\<And>g. g \<in> set ls \<Longrightarrow> \<exists>P. g = filter P rows"
    by (erule cells_groups [where reduce = income_reducer and ?key1.0 = key1 and ?key2.0 = key2
          and vs = rows])
  have cell: "totalIncome (income_reducer g) = Fin (of_int (\<Sum>d\<leftarrow>g. income_int d))"
    if "g \<in> set ls" for g
  proof -
    from that obtain P where "g = filter P rows"
      using groups by blast
    with ex have "exact_incomes g"
      by (simp add: exact_incomes_filter)
    then show ?thesis
      by (simp add: income_reducer_def exact_incomes_d3_sum)
  qed
  have "(\<Sum>g\<leftarrow>ls. \<bar>\<Sum>d\<leftarrow>g. income_int d\<bar>) \<le> (\<Sum>g\<leftarrow>ls. \<Sum>d\<leftarrow>g. \<bar>income_int d\<bar>)"
  proof (rule sum_list_mono)
    fix g
    have "\<bar>sum_list (map income_int g)\<bar> \<le> sum_list (map abs (map income_int g))"
      by (rule sum_list_abs)
    then show "\<bar>\<Sum>d\<leftarrow>g. income_int d\<bar> \<le> (\<Sum>d\<leftarrow>g. \<bar>income_int d\<bar>)"
      by (simp add: comp_def)
  qed
  also have "\<dots> = (\<Sum>d\<leftarrow>rows. \<bar>income_int d\<bar>)"
    by (rule sums)
  also have "\<dots> \<le> 2 ^ 53"
    using ex by (simp add: exact_incomes_def)
  finally have bound: "(\<Sum>g\<leftarrow>ls. \<bar>\<Sum>d\<leftarrow>g. income_int d\<bar>) \<le> 2 ^ 53" .
  have "d3_sum (\<lambda>g. totalIncome (income_reducer g)) ls =
        Fin (of_int (\<Sum>g\<leftarrow>ls. \<Sum>d\<leftarrow>g. income_int d))"
    using cell bound by (intro d3_sum_exact) auto
  also have "(\<Sum>g\<leftarrow>ls. \<Sum>d\<leftarrow>g. income_int d) = (\<Sum>d\<leftarrow>rows. income_int d)"
    by (rule sums)
  finally have "d3_sum totalIncome (cells (d3_rollup income_reducer key1 key2 rows)) =
                Fin (of_int (\<Sum>d\<leftarrow>rows. income_int d))"
    by (simp add: cs d3_sum_def d3_sum_from_map)
  with whole show "d3_sum totalIncome (cells (d3_rollup income_reducer key1 key2 rows)) =
                   d3_sum Income rows"
    by simp
qed

theorem aggregate_conservation_witness:
  "exact_incomes scenario \<and>
   sum_list (map count_c (cells (aggregatedData scenario))) = 3 \<and>
   d3_sum totalIncome (cells (aggregatedData scenario)) = Fin 600 \<and>
   d3_sum Income scenario = Fin 600"
proof -
  have h: "exact_incomes scenario"
    by (rule scenario_exact)
  from aggregate_conservation [of Age RiskRating scenario] h
  have "sum_list (map count_c (cells (aggregatedData scenario))) = length scenario"
    and "d3_sum totalIncome (cells (aggregatedData scenario)) = d3_sum Income scenario"
    and "d3_sum Income scenario = Fin (of_int (\<Sum>d\<leftarrow>scenario. income_int d))"
    by (simp_all add: aggregatedData_def)
  moreover have "(\<Sum>d\<leftarrow>scenario. income_int d) = 600"
    by (simp add: scenario_def income_int_def)
  moreover have "length scenario = 3"
    by (simp add: scenario_def)
  ultimately show ?thesis
    using h by simp
qed

text \<open>
  Against claim C4 as stated: four rows with the incomes \<open>10 ^ 16\<close>, 1, 1 and 1, in two
  cells. The cells hold \<open>10 ^ 16\<close> (the sum of \<open>10 ^ 16\<close> and 1, rounded) and 2, which add
  up to \<open>10 ^ 16 + 2\<close>; the incomes of the rows add up to \<open>10 ^ 16\<close> in the order of the
  rows and to \<open>10 ^ 16 + 4\<close> in the reverse order.
\<close>

theorem aggregate_sum_rounded:
  "map totalIncome (cells (aggregatedData mixed_rows)) = [Fin 10000000000000000, Fin 2] \<and>
   d3_sum totalIncome (cells (aggregatedData mixed_rows)) = Fin 10000000000000002 \<and>
   d3_sum Income mixed_rows = Fin 10000000000000000 \<and>
   d3_sum Income (rev mixed_rows) = Fin 10000000000000004"
proof (intro conjI)
  show "map totalIncome (cells (aggregatedData mixed_rows)) = [Fin 10000000000000000, Fin 2]"
    by (simp add: mixed_rows_agg cells_def)
  show "d3_sum totalIncome (cells (aggregatedData mixed_rows)) = Fin 10000000000000002"
    by (simp add: mixed_rows_agg cells_def d3_sum_def truthy_number_def round64_simps)
  show "d3_sum Income mixed_rows = Fin 10000000000000000"
    by (simp add: mixed_rows_def d3_sum_def truthy_number_def round64_simps)
  show "d3_sum Income (rev mixed_rows) = Fin 10000000000000004"
    by (simp add: mixed_rows_def d3_sum_def truthy_number_def round64_simps)
qed

text \<open>
  Claim C8, as the code has it. The aggregate of a permutation of the rows has a cell at
  the same pairs of a primary and a secondary key, with the same count; when the incomes
  are exact, the cell is the same, sum and count (the order of the keys in the mapping may
  differ).
\<close>

theorem aggregate_permutation:
  assumes "mset rows = mset rows'"
  shows "map_option count_c (lookup_cell (aggregatedData rows) a r) =
           map_option count_c (lookup_cell (aggregatedData rows') a r) \<and>
         (exact_incomes rows \<longrightarrow>
            lookup_cell (aggregatedData rows) a r = lookup_cell (aggregatedData rows') a r)"
proof (intro conjI impI)
  let ?sel = "\<lambda>vs. filter (\<lambda>v. RiskRating v = r) (filter (\<lambda>v. Age v = a) vs)"
  have sel: "mset (?sel rows) = mset (?sel rows')"
    using assms by simp
  have sets: "set rows = set rows'"
    using assms by (rule mset_eq_setD)
  from sel have "length (?sel rows) = length (?sel rows')"
    by (rule mset_eq_length)
  with sets show "map_option count_c (lookup_cell (aggregatedData rows) a r) =
                  map_option count_c (lookup_cell (aggregatedData rows') a r)"
    by (simp add: aggregatedData_def lookup_cell_rollup income_reducer_def)
  assume "exact_incomes rows"
  then have "exact_incomes (?sel rows)"
    by (simp add: exact_incomes_filter)
  with sel have "income_reducer (?sel rows) = income_reducer (?sel rows')"
    by (rule income_reducer_perm)
  with sets show "lookup_cell (aggregatedData rows) a r = lookup_cell (aggregatedData rows') a r"
    by (simp add: aggregatedData_def lookup_cell_rollup)
qed

theorem aggregate_permutation_witness:
  "mset scenario = mset (rev scenario) \<and> exact_incomes scenario \<and>
   lookup_cell (aggregatedData (rev scenario)) ''28-37'' (Some ''Low'') =
     Some \<lparr>totalIncome = Fin 400, count_c = 2\<rparr>"
proof -
  have h: "mset scenario = mset (rev scenario)"
    by simp
  have e: "exact_incomes scenario"
    by (rule scenario_exact)
  have "lookup_cell (aggregatedData scenario) ''28-37'' (Some ''Low'') =
          Some \<lparr>totalIncome = Fin 400, count_c = 2\<rparr>"
    by (simp add: scenario_agg lookup_cell_def)
  with aggregate_permutation [OF h, of "''28-37''" "Some ''Low''"] h e show ?thesis
    by simp
qed

text \<open>
  Against claim C8 as stated: three rows of one cell with the incomes \<open>10 ^ 16\<close>, 1 and 1.
  In this order the cell's sum is \<open>10 ^ 16\<close>, each addition of 1 being rounded away; in
  the reverse order it is \<open>10 ^ 16 + 2\<close>.
\<close>

theorem aggregate_permutation_rounded:
  "mset big_rows = mset (rev big_rows) \<and>
   lookup_cell (aggregatedData big_rows) ''28-37'' (Some ''Low'') =
     Some \<lparr>totalIncome = Fin 10000000000000000, count_c = 3\<rparr> \<and>
   lookup_cell (aggregatedData (rev big_rows)) ''28-37'' (Some ''Low'') =
     Some \<lparr>totalIncome = Fin 10000000000000002, count_c = 3\<rparr>"
  by (simp add: big_rows_agg rev_big_rows_agg lookup_cell_def)

text \<open>
  Claim C10. Every cell of the aggregate counts at least one row, so the mean of a cell
  that is in the mapping is never a division by zero.
\<close>

theorem cell_count_positive:
  assumes "c \<in> set (cells (aggregatedData data))"
  shows "1 \<le> count_c c \<and> Fin (real (count_c c)) \<noteq> Fin 0"
proof -
  from assms obtain a r where ex: "\<exists>v \<in> set data. Age v = a \<and> RiskRating v = r"
    and c: "c = income_reducer (filter (\<lambda>v. RiskRating v = r) (filter (\<lambda>v. Age v = a) data))"
    unfolding aggregatedData_def by (rule in_cells_d3_rollup)
  from ex have "filter (\<lambda>v. RiskRating v = r) (filter (\<lambda>v. Age v = a) data) \<noteq> []"
    by (auto simp: filter_empty_conv)
  then have "0 < count_c c"
    by (simp add: c income_reducer_def)
  then show ?thesis
    by simp
qed

theorem cell_count_positive_witness:
  "\<lparr>totalIncome = Fin 400, count_c = 2\<rparr> \<in> set (cells (aggregatedData scenario)) \<and>
   1 \<le> count_c \<lparr>totalIncome = Fin 400, count_c = 2\<rparr> \<and>
   js_div (Fin 400) (Fin (real (count_c \<lparr>totalIncome = Fin 400, count_c = 2\<rparr>))) = Fin 200"
proof -
  have h: "\<lparr>totalIncome = Fin 400, count_c = 2\<rparr> \<in> set (cells (aggregatedData scenario))"
    by (simp add: scenario_agg cells_def)
  from cell_count_positive [OF h] h show ?thesis
    by (simp add: round64_Ints)
qed



text \<open>
  Claim C9. Without rows the aggregate is the empty mapping, and the graph construction
  of either flow diagram yields no node and no link; neither has a failing branch.
\<close>

theorem empty_input_empty_output:
  "aggregatedData [] = [] \<and> initChart_graph [] = ([], []) \<and> SankeyPlot_graph flt [] = ([], [])"
  by (simp add: aggregatedData_def d3_rollup_def d3_group_def initChart_graph_def
      SankeyPlot_graph_def collect_def filteredData_def nodeMap_def)

section \<open>The loaders: what is dropped\<close>

text \<open>The hexbin loader keeps a row only after its checks: every row it yields passed them.\<close>

lemma HexbinPlot_row_checked:
  assumes "HexbinPlot_row num d = Some r"
  shows "CreditScore r = unary_plus num (d ''Credit Score'') \<and> CreditScore r \<noteq> NaN \<and>
         js_ge (CreditScore r) (Fin 600) \<and> js_le (CreditScore r) (Fin 800) \<and>
         Income_H r = unary_plus num (d ''Income'') \<and> js_gt (Income_H r) (Fin 0) \<and>
         DebtToIncomeRatio r = unary_plus num (d ''Debt-to-Income Ratio'') \<and> DebtToIncomeRatio r \<noteq> NaN \<and>
         Age_H r = unary_plus num (d ''Age'') \<and> Age_H r \<noteq> NaN \<and>
         d ''Risk Rating'' = Some (RiskRating_H r) \<and> RiskRating_H r \<noteq> []"
  using assms
  by (auto simp: HexbinPlot_row_def Let_def isNaN_def truthy_text_def split: if_splits option.splits)

text \<open>So do the flow diagrams' loaders; the income of a row they yield is one of the labels.\<close>

lemma SankeyPlot_row_checked:
  assumes "SankeyPlot_row num trim d = Some r"
  shows "d ''Education Level'' = Some (EducationLevel r) \<and> EducationLevel r \<noteq> [] \<and>
         d ''Payment History'' = Some (PaymentHistory r) \<and> PaymentHistory r \<noteq> [] \<and>
         d ''Risk Rating'' = Some (RiskRating_S r) \<and> RiskRating_S r \<noteq> [] \<and>
         unary_plus num (d ''Income'') \<noteq> NaN \<and>
         Income_S r = assignIncomeToRange (unary_plus num (d ''Income'')) \<and>
         Income_S r \<in> set incomeRanges"
proof -
  have "assignIncomeToRange x \<in> set incomeRanges" for x
    by (simp add: assignIncomeToRange_def incomeRanges_def)
  with assms show ?thesis
    by (auto simp: SankeyPlot_row_def Let_def isNaN_def truthy_text_def
        split: if_splits option.splits)
qed

text \<open>
  Claim C2 at the bar chart, whose row function has no check and never returns \<open>null\<close>:
  the loaded data has a row for every line of the file, whatever the conversion to numbers
  yields, in both versions of the chart. The line with the age \<open>abc\<close>, the income
  \<open>n/a\<close> and an empty risk rating is loaded with the age group \<open>Unknown\<close> and the
  income \<open>NaN\<close>, and is a cell of the aggregate, counted with no income; the hexbin
  loader drops the same line.
\<close>

theorem BarChartOverview_keeps_every_row:
  "length (BarChartOverview_load num csv) = length csv \<and>
   length (BarChartOverview_load_HW2 num csv) = length csv \<and>
   BarChartOverview_load no_numeral [unparsable_row] =
     [\<lparr>Age = ''Unknown'', Income = NaN, RiskRating = Some []\<rparr>] \<and>
   aggregatedData (BarChartOverview_load no_numeral [unparsable_row]) =
     [(''Unknown'', [(Some [], \<lparr>totalIncome = Fin 0, count_c = 1\<rparr>)])] \<and>
   HexbinPlot_load no_numeral [unparsable_row] = []"
proof (intro conjI)
  show "length (BarChartOverview_load num csv) = length csv"
    by (induction csv)
      (simp_all add: BarChartOverview_load_def map_filter_simps BarChartOverview_row_def Let_def)
  show "length (BarChartOverview_load_HW2 num csv) = length csv"
    by (induction csv)
      (simp_all add: BarChartOverview_load_HW2_def map_filter_simps BarChartOverview_row_HW2_def Let_def)
  show row: "BarChartOverview_load no_numeral [unparsable_row] =
     [\<lparr>Age = ''Unknown'', Income = NaN, RiskRating = Some []\<rparr>]"
    by (simp add: BarChartOverview_load_def map_filter_simps BarChartOverview_row_def Let_def
        unparsable_row_def no_numeral_def unary_plus_def categorizeAge_def js_cmp)
  show "aggregatedData (BarChartOverview_load no_numeral [unparsable_row]) =
     [(''Unknown'', [(Some [], \<lparr>totalIncome = Fin 0, count_c = 1\<rparr>)])]"
    unfolding row
    by (simp add: aggregatedData_def d3_rollup_def d3_group_def income_reducer_def d3_sum_def
        truthy_number_def)
  show "HexbinPlot_load no_numeral [unparsable_row] = []"
    by (simp add: HexbinPlot_load_def map_filter_simps HexbinPlot_row_def Let_def
        unparsable_row_def no_numeral_def unary_plus_def isNaN_def)
qed

section \<open>The flow graph: nodes, links and weights\<close>

lemma add_row_link_steps:
  "add_row fresh st d = foldl (link_step fresh) st (map (\<lambda>(s, t). (s, t, d)) (pairs_of d))"
  by (cases st)
    (simp add: add_row_def dimensions_def reduce_step_def truthy_text_def Let_def pairs_of_def
      link_step_def)

lemma add_row_unfold:
  "add_row fresh (nodesSet, linksMap) d =
     foldl (\<lambda>(ns, lm) (s, t). (set_add t (set_add s ns), upsert_link (link_key s t) (fresh s t d) lm))
       (nodesSet, linksMap)
       [(node_key ''EducationLevel'' d, node_key ''PaymentHistory'' d),
        (node_key ''PaymentHistory'' d, node_key ''Income'' d),
        (node_key ''Income'' d, node_key ''RiskRating'' d)]"
  by (simp add: add_row_def dimensions_def reduce_step_def truthy_text_def Let_def)

lemma collect_link_steps: "collect fresh data = foldl (link_step fresh) ([], []) (occurrences data)"
proof -
  have "foldl (add_row fresh) st data = foldl (link_step fresh) st (occurrences data)" for st
    by (induction data arbitrary: st) (simp_all add: occurrences_def add_row_link_steps)
  then show ?thesis
    by (simp add: collect_def)
qed

lemma link_steps_snoc:
  "foldl (link_step fresh) st (occ @ [(s, t, d)]) =
     (set_add t (set_add s (fst (foldl (link_step fresh) st occ))),
      upsert_link (link_key s t) (fresh s t d) (snd (foldl (link_step fresh) st occ)))"
  by (simp add: link_step_def case_prod_unfold)

lemma map_of_bump:
  "map_of (map (\<lambda>(k', l). if k' = k then (k', f l) else (k', l)) m) k'' =
     (if k'' = k then map_option f (map_of m k) else map_of m k'')"
  by (induction m) auto

lemma map_of_upsert_link:
  "map_of (upsert_link k fr m) k' =
     (if k' = k
      then (case map_of m k of None \<Rightarrow> Some fr | Some l \<Rightarrow> Some (l\<lparr>link_value := link_value l + 1\<rparr>))
      else map_of m k')"
proof (cases "k \<in> fst ` set m")
  case True
  then obtain l where "map_of m k = Some l"
    by (metis domD dom_map_of_conv_image_fst)
  with True show ?thesis
    by (simp add: upsert_link_def map_has_def map_of_bump)
next
  case False
  then have "map_of m k = None"
    by (simp add: map_of_eq_None_iff)
  with False show ?thesis
    by (auto simp: upsert_link_def map_has_def map_add_def split: option.splits)
qed

lemma keys_upsert_link:
  "map fst (upsert_link k fr m) = (if k \<in> fst ` set m then map fst m else map fst m @ [k])"
  by (simp add: upsert_link_def map_has_def case_prod_unfold comp_def if_distrib cong: if_cong)

lemma distinct_set_add: "distinct ns \<Longrightarrow> distinct (set_add x ns)"
  by (simp add: set_add_def)

lemma set_set_add: "set (set_add x ns) = insert x (set ns)"
  by (auto simp: set_add_def)


lemma run_Nil: "run fresh [] = ([], [])"
  by (simp add: run_def)

lemma run_snoc:
  "run fresh (occ @ [(s, t, d)]) =
     (set_add t (set_add s (fst (run fresh occ))),
      upsert_link (link_key s t) (fresh s t d) (snd (run fresh occ)))"
  by (simp add: run_def link_step_def case_prod_unfold)

lemma collect_run: "collect fresh data = run fresh (occurrences data)"
  by (simp add: collect_link_steps run_def)


text \<open>The nodes: every node key of an occurrence, once.\<close>

lemma run_nodes:
  "distinct (fst (run fresh occ)) \<and>
   set (fst (run fresh occ)) = fst ` set occ \<union> (fst \<circ> snd) ` set occ"
proof (induction occ rule: rev_induct)
  case Nil
  show ?case by (simp add: run_Nil)
next
  case (snoc x occ)
  obtain s t d where x: "x = (s, t, d)"
    by (cases x)
  from snoc show ?case
    unfolding x run_snoc by (auto simp: distinct_set_add set_set_add)
qed

text \<open>The links: one per link key, in the order of first occurrence.\<close>

lemma run_link_keys:
  "distinct (map fst (snd (run fresh occ))) \<and> fst ` set (snd (run fresh occ)) = key_of ` set occ"
proof (induction occ rule: rev_induct)
  case Nil
  show ?case by (simp add: run_Nil)
next
  case (snoc x occ)
  obtain s t d where x: "x = (s, t, d)"
    by (cases x)
  have "set (map fst (upsert_link k fr m)) = insert k (fst ` set m)" for k fr
    and m :: "(string \<times> 'a link_scheme) list"
    by (auto simp: keys_upsert_link)
  then have "fst ` set (upsert_link k fr m) = insert k (fst ` set m)" for k fr
    and m :: "(string \<times> 'a link_scheme) list"
    by simp
  with snoc show ?case
    unfolding x run_snoc by (auto simp: keys_upsert_link key_of_def)
qed

text \<open>
  The link of a key is the fresh link of the first occurrence with that key, its value
  raised by one for every later occurrence with that key.
\<close>

lemma run_links:
  "map_of (snd (run fresh occ)) k =
     (case filter (\<lambda>x. key_of x = k) occ of
        [] \<Rightarrow> None
      | x # rest \<Rightarrow>
          Some ((fresh (fst x) (fst (snd x)) (snd (snd x)))
                 \<lparr>link_value := link_value (fresh (fst x) (fst (snd x)) (snd (snd x))) + length rest\<rparr>))"
proof (induction occ rule: rev_induct)
  case Nil
  show ?case by (simp add: run_Nil)
next
  case (snoc x occ)
  obtain s t d where x: "x = (s, t, d)"
    by (cases x)
  show ?case
  proof (cases "link_key s t = k")
    case True
    with snoc show ?thesis
      unfolding x run_snoc
      by (auto simp: map_of_upsert_link key_of_def split: list.splits)
  next
    case False
    with snoc show ?thesis
      unfolding x run_snoc
      by (simp add: map_of_upsert_link key_of_def)
  qed
qed

lemma well_formed_fresh_link: "well_formed_fresh fresh_link"
  by (simp add: well_formed_fresh_def fresh_link_def)

lemma well_formed_fresh_link_R: "well_formed_fresh fresh_link_R"
  by (simp add: well_formed_fresh_def fresh_link_R_def)

lemma distinct_link_keysD:
  "distinct_link_keys occ \<Longrightarrow> x \<in> set occ \<Longrightarrow> y \<in> set occ \<Longrightarrow> key_of x = key_of y \<Longrightarrow>
   fst x = fst y \<and> fst (snd x) = fst (snd y)"
  unfolding distinct_link_keys_def by blast

lemma distinct_link_keys_butlast:
  assumes "distinct_link_keys (occ @ [x])"
  shows "distinct_link_keys occ"
  unfolding distinct_link_keys_def
proof (intro ballI impI)
  fix y z
  assume "y \<in> set occ" and "z \<in> set occ" and k: "key_of y = key_of z"
  then have "y \<in> set (occ @ [x])" and "z \<in> set (occ @ [x])"
    by simp_all
  then show "fst y = fst z \<and> fst (snd y) = fst (snd z)"
    using k by (rule distinct_link_keysD [OF assms])
qed

text \<open>
  When different pairs have different link keys, the link of a pair has the pair as its
  ends, and its value is the number of occurrences of the pair.
\<close>

lemma run_link_of_pair:
  assumes fresh: "well_formed_fresh fresh" and inj: "distinct_link_keys occ"
    and occ: "(s, t, d) \<in> set occ"
  shows "\<exists>l. map_of (snd (run fresh occ)) (link_key s t) = Some l \<and> source l = s \<and> target l = t \<and>
             link_value l = length (filter (\<lambda>x. fst x = s \<and> fst (snd x) = t) occ)"
proof -
  have same: "filter (\<lambda>x. key_of x = link_key s t) occ = filter (\<lambda>x. fst x = s \<and> fst (snd x) = t) occ"
  proof (intro filter_cong refl)
    fix x assume x: "x \<in> set occ"
    have k: "key_of (s, t, d) = link_key s t"
      by (simp add: key_of_def)
    show "(key_of x = link_key s t) = (fst x = s \<and> fst (snd x) = t)"
    proof
      assume "key_of x = link_key s t"
      with k distinct_link_keysD [OF inj x occ] show "fst x = s \<and> fst (snd x) = t"
        by simp
    next
      assume "fst x = s \<and> fst (snd x) = t"
      then show "key_of x = link_key s t"
        by (simp add: key_of_def)
    qed
  qed
  have "(\<lambda>x. fst x = s \<and> fst (snd x) = t) (s, t, d)"
    by simp
  with occ have "filter (\<lambda>x. fst x = s \<and> fst (snd x) = t) occ \<noteq> []"
    unfolding filter_empty_conv by blast
  then obtain x rest where xr: "filter (\<lambda>x. fst x = s \<and> fst (snd x) = t) occ = x # rest"
    by (cases "filter (\<lambda>x. fst x = s \<and> fst (snd x) = t) occ") auto
  then have "x \<in> set (filter (\<lambda>x. fst x = s \<and> fst (snd x) = t) occ)"
    by simp
  then have x: "fst x = s" "fst (snd x) = t"
    by simp_all
  from fresh have "source (fresh s t (snd (snd x))) = s" "target (fresh s t (snd (snd x))) = t"
    "link_value (fresh s t (snd (snd x))) = 1"
    by (simp_all add: well_formed_fresh_def)
  then show ?thesis
    by (simp add: run_links same xr x)
qed

lemma bump_absent:
  "k \<notin> fst ` set m \<Longrightarrow> map (\<lambda>(k', l). if k' = k then (k', f l) else (k', l)) m = m"
  by (induction m) auto

lemma weight_from_bump:
  assumes "distinct (map fst m)" and "map_of m k = Some l"
  shows "weight_from n (map (\<lambda>(k', l). if k' = k then (k', l\<lparr>link_value := link_value l + 1\<rparr>) else (k', l)) m) =
         weight_from n m + (if source l = n then 1 else 0)"
  using assms
proof (induction m)
  case Nil
  then show ?case by simp
next
  case (Cons e m)
  obtain k' l' where e: "e = (k', l')"
    by (cases e)
  show ?case
  proof (cases "k' = k")
    case True
    with Cons.prems e have "l' = l" and "k \<notin> fst ` set m"
      by auto
    then show ?thesis
      using True e by (simp add: weight_from_def bump_absent)
  next
    case False
    with Cons e show ?thesis
      by (simp add: weight_from_def)
  qed
qed

lemma weight_from_upsert:
  assumes "distinct (map fst m)"
    and "\<And>l. map_of m k = Some l \<Longrightarrow> source l = source fr"
    and "link_value fr = 1"
  shows "weight_from n (upsert_link k fr m) = weight_from n m + (if source fr = n then 1 else 0)"
proof (cases "k \<in> fst ` set m")
  case True
  then obtain l where l: "map_of m k = Some l"
    by (metis domD dom_map_of_conv_image_fst)
  with assms(2) have "source l = source fr"
    by simp
  with True l weight_from_bump [OF assms(1) l, of n] show ?thesis
    by (simp add: upsert_link_def map_has_def)
next
  case False
  with assms(3) show ?thesis
    by (simp add: upsert_link_def map_has_def weight_from_def)
qed

text \<open>Then the weight that leaves a node key is the number of occurrences that start there.\<close>

lemma run_weight_from:
  assumes fresh: "well_formed_fresh fresh" and inj: "distinct_link_keys occ"
  shows "weight_from n (snd (run fresh occ)) = length (filter (\<lambda>x. fst x = n) occ)"
  using inj
proof (induction occ rule: rev_induct)
  case Nil
  show ?case by (simp add: run_Nil weight_from_def)
next
  case (snoc x occ)
  obtain s t d where x: "x = (s, t, d)"
    by (cases x)
  from snoc.prems have inj': "distinct_link_keys occ"
    by (rule distinct_link_keys_butlast)
  with snoc.IH have IH: "weight_from n (snd (run fresh occ)) = length (filter (\<lambda>x. fst x = n) occ)"
    by simp
  have src: "source l = source (fresh s t d)" if l: "map_of (snd (run fresh occ)) (link_key s t) = Some l" for l
  proof -
    from l have "link_key s t \<in> fst ` set (snd (run fresh occ))"
      by (metis domI dom_map_of_conv_image_fst)
    then obtain y where o: "y \<in> set occ" and k: "key_of y = link_key s t"
      using run_link_keys [of fresh occ] by auto
    have "key_of y = key_of x"
      using k by (simp add: x key_of_def)
    with distinct_link_keysD [OF snoc.prems, of y x] o have "fst y = s \<and> fst (snd y) = t"
      by (simp add: x)
    then have "y = (s, t, snd (snd y))"
      by (simp add: prod_eq_iff)
    with o have "(s, t, snd (snd y)) \<in> set occ"
      by simp
    from run_link_of_pair [OF fresh inj' this] l have "source l = s"
      by auto
    with fresh show ?thesis
      by (simp add: well_formed_fresh_def)
  qed
  have "weight_from n (snd (run fresh (occ @ [x]))) =
        weight_from n (snd (run fresh occ)) + (if source (fresh s t d) = n then 1 else 0)"
    unfolding x run_snoc snd_conv
    using run_link_keys [of fresh occ] src fresh
    by (intro weight_from_upsert) (simp_all add: well_formed_fresh_def)
  with IH fresh show ?case
    by (simp add: x well_formed_fresh_def)
qed


text \<open>The index of a node name is its position among the names.\<close>

lemma name_make_node: "name (make_node n) = n"
  by (simp add: make_node_def Let_def)

lemma nodeMap_snoc:
  "nodeMap (map make_node ns @ [make_node n]) = (nodeMap (map make_node ns))(n \<mapsto> length ns)"
  by (simp add: nodeMap_def name_make_node)

lemma nodeMap_index:
  assumes "distinct ns"
  shows "(nodeMap (map make_node ns) n = Some i) = (i < length ns \<and> ns ! i = n)"
  using assms
proof (induction ns rule: rev_induct)
  case Nil
  show ?case by (simp add: nodeMap_def)
next
  case (snoc n' ns)
  then have IH: "(nodeMap (map make_node ns) n = Some i) = (i < length ns \<and> ns ! i = n)"
    and n': "n' \<notin> set ns"
    by simp_all
  show ?case
  proof (cases "n = n'")
    case True
    with n' have "\<not> (i < length ns \<and> ns ! i = n)"
      by auto
    with True show ?thesis
      by (auto simp: nodeMap_snoc nth_append less_Suc_eq)
  next
    case False
    with IH show ?thesis
      by (auto simp: nodeMap_snoc nth_append less_Suc_eq)
  qed
qed

lemma out_weight_weight_from:
  assumes c: "collect fresh_link data = (ns, lm)" and i: "i < length ns"
  shows "out_weight i (snd (initChart_graph data)) = weight_from (ns ! i) lm"
proof -
  from c have "distinct ns"
    using run_nodes [of fresh_link "occurrences data"] by (simp add: collect_run)
  then have idx: "(nodeMap (map make_node ns) n = Some i) = (ns ! i = n)" for n
    using i by (simp add: nodeMap_index)
  have "out_weight i (snd (initChart_graph data)) =
        sum_list (map (link_value \<circ> snd)
          (filter (\<lambda>e. nodeMap (map make_node ns) (source (snd e)) = Some i) lm))"
    by (simp add: initChart_graph_def c Let_def out_weight_def filter_map comp_def)
  also have "\<dots> = weight_from (ns ! i) lm"
    unfolding weight_from_def idx by (simp add: eq_commute [of "ns ! i"])
  finally show ?thesis .
qed

text \<open>
  The occurrences that start at the node of a dimension but the last and a category are
  the rows that have the category in the dimension.
\<close>

lemma occurrences_Cons:
  "occurrences (d # data) = map (\<lambda>(s, t). (s, t, d)) (pairs_of d) @ occurrences data"
  by (simp add: occurrences_def)

lemma starts_in_row:
  assumes "dname \<in> set (butlast dimensions)"
  shows "length (filter (\<lambda>x. fst x = dname @ ''_'' @ cat) (map (\<lambda>(s, t). (s, t, d)) (pairs_of d))) =
         (if prop_of d dname = Some cat then 1 else 0)"
proof -
  from assms consider "dname = ''EducationLevel''" | "dname = ''PaymentHistory''" | "dname = ''Income''"
    by (auto simp: dimensions_def)
  then show ?thesis
    by cases (simp_all add: pairs_of_def dimensions_def node_key_def prop_of_def template_def)
qed

lemma starts_rows_through:
  assumes "dname \<in> set (butlast dimensions)"
  shows "length (filter (\<lambda>x. fst x = dname @ ''_'' @ cat) (occurrences data)) = rows_through dname cat data"
proof (induction data)
  case Nil
  show ?case by (simp add: occurrences_def rows_through_def)
next
  case (Cons d data)
  then show ?case
    using starts_in_row [OF assms, of cat d]
    by (simp add: occurrences_Cons rows_through_def)
qed

text \<open>
  So, when different adjacent pairs of the rows have different link keys, the weight that
  leaves a node of a dimension but the last is the number of rows through that node.
\<close>

lemma out_weight_rows_through:
  assumes inj: "distinct_link_keys (occurrences data)"
    and i: "i < length (fst (initChart_graph data))"
    and nm: "name (fst (initChart_graph data) ! i) = dname @ ''_'' @ cat"
    and dname: "dname \<in> set (butlast dimensions)"
  shows "out_weight i (snd (initChart_graph data)) = rows_through dname cat data"
proof -
  obtain ns lm where c: "collect fresh_link data = (ns, lm)"
    by (cases "collect fresh_link data")
  then have nodes: "fst (initChart_graph data) = map make_node ns"
    by (simp add: initChart_graph_def Let_def)
  with i have i': "i < length ns"
    by simp
  with nm nodes have "ns ! i = dname @ ''_'' @ cat"
    by (simp add: name_make_node)
  moreover have "weight_from n lm = length (filter (\<lambda>x. fst x = n) (occurrences data))" for n
    using run_weight_from [OF well_formed_fresh_link inj, of n] c by (simp add: collect_run)
  ultimately show ?thesis
    using starts_rows_through [OF dname, of cat data]
    by (simp add: out_weight_weight_from [OF c i'])
qed

text \<open>
  And the link of every adjacent pair of a row has the pair's node keys as its ends and
  the number of occurrences of the pair as its value.
\<close>

lemma link_of_pair:
  assumes "distinct_link_keys (occurrences data)" and "(s, t, d) \<in> set (occurrences data)"
  shows "\<exists>l. map_of (snd (collect fresh_link data)) (link_key s t) = Some l \<and>
             source l = s \<and> target l = t \<and>
             link_value l = length (filter (\<lambda>x. fst x = s \<and> fst (snd x) = t) (occurrences data))"
  using run_link_of_pair [OF well_formed_fresh_link assms] by (simp add: collect_run)

section \<open>The flow graph: categories without an arrow\<close>

text \<open>
  Two link keys whose source node keys have no arrow are equal only for equal pairs. So
  the link keys are distinct, and the weights and links are as above, for rows that are
  free of arrows.
\<close>

lemma has_arrow_Cons: "has_arrow (c # v) = (c = CHR ''-'' \<and> v \<noteq> [] \<and> hd v = CHR ''>'' \<or> has_arrow v)"
  by (cases v) auto

lemma has_arrow_appendI: "has_arrow (ps @ CHR ''-'' # CHR ''>'' # ss)"
  by (induction ps) (simp_all add: has_arrow_Cons)

lemma arrow_overlap:
  assumes "u @ ''->'' @ t' = ''->'' @ t"
  shows "u = [] \<or> has_arrow (s @ u)"
proof (cases u)
  case Nil
  then show ?thesis by simp
next
  case (Cons c u')
  show ?thesis
  proof (cases u')
    case Nil
    with Cons assms show ?thesis by simp
  next
    case (Cons c' u'')
    with \<open>u = c # u'\<close> assms have "u = CHR ''-'' # CHR ''>'' # u''"
      by simp
    then show ?thesis
      by (simp add: has_arrow_appendI)
  qed
qed

lemma link_key_inj:
  assumes k: "link_key s t = link_key s' t'" and s: "\<not> has_arrow s" and s': "\<not> has_arrow s'"
  shows "s = s' \<and> t = t'"
proof -
  from k have "s @ (''->'' @ t) = s' @ (''->'' @ t')"
    by (simp add: link_key_def)
  then obtain u where "s = s' @ u \<and> u @ (''->'' @ t) = ''->'' @ t' \<or> s @ u = s' \<and> ''->'' @ t = u @ (''->'' @ t')"
    unfolding append_eq_append_conv2 by blast
  then show ?thesis
  proof
    assume a: "s = s' @ u \<and> u @ (''->'' @ t) = ''->'' @ t'"
    with arrow_overlap [of u t t' s'] s have "u = []"
      by auto
    with a show ?thesis by simp
  next
    assume a: "s @ u = s' \<and> ''->'' @ t = u @ (''->'' @ t')"
    with arrow_overlap [of u t' t s] s' have "u = []"
      by auto
    with a show ?thesis by simp
  qed
qed

lemma occurrence_source:
  assumes "x \<in> set (occurrences data)" and "list_all arrow_free data"
  shows "\<not> has_arrow (fst x)"
proof -
  from assms(1) obtain d where d: "d \<in> set data" and x: "fst x \<in> fst ` set (pairs_of d)"
    by (force simp: occurrences_def)
  from d assms(2) have "arrow_free d"
    by (simp add: list_all_iff)
  with x show ?thesis
    by (auto simp: pairs_of_def dimensions_def node_key_def prop_of_def template_def arrow_free_def
        has_arrow_Cons)
qed

lemma arrow_free_distinct_link_keys:
  assumes "list_all arrow_free data"
  shows "distinct_link_keys (occurrences data)"
  unfolding distinct_link_keys_def
proof (intro ballI impI)
  fix x y
  assume x: "x \<in> set (occurrences data)" and y: "y \<in> set (occurrences data)"
    and k: "key_of x = key_of y"
  from k have "link_key (fst x) (fst (snd x)) = link_key (fst y) (fst (snd y))"
    by (simp add: key_of_def)
  then show "fst x = fst y \<and> fst (snd x) = fst (snd y)"
    using occurrence_source [OF x assms] occurrence_source [OF y assms] by (rule link_key_inj)
qed

lemma arrow_free_out_weight:
  assumes "list_all arrow_free data"
    and "i < length (fst (initChart_graph data))"
    and "name (fst (initChart_graph data) ! i) = dname @ ''_'' @ cat"
    and "dname \<in> set (butlast dimensions)"
  shows "out_weight i (snd (initChart_graph data)) = rows_through dname cat data"
  using arrow_free_distinct_link_keys [OF assms(1)] assms(2-4) by (rule out_weight_rows_through)

lemma plain_rows_graph:
  "initChart_graph [plain_row, plain_row] =
    ([\<lparr>name = ''EducationLevel_PhD'', dimension = Some ''EducationLevel'', category = Some ''PhD''\<rparr>,
      \<lparr>name = ''PaymentHistory_Good'', dimension = Some ''PaymentHistory'', category = Some ''Good''\<rparr>,
      \<lparr>name = ''Income_< 20K'', dimension = Some ''Income'', category = Some ''< 20K''\<rparr>,
      \<lparr>name = ''RiskRating_Low'', dimension = Some ''RiskRating'', category = Some ''Low''\<rparr>],
     [\<lparr>source_ix = Some 0, target_ix = Some 1, value_ix = 2\<rparr>,
      \<lparr>source_ix = Some 1, target_ix = Some 2, value_ix = 2\<rparr>,
      \<lparr>source_ix = Some 2, target_ix = Some 3, value_ix = 2\<rparr>])"
proof -
  have keys: "node_key ''EducationLevel'' plain_row = ''EducationLevel_PhD''"
    "node_key ''PaymentHistory'' plain_row = ''PaymentHistory_Good''"
    "node_key ''Income'' plain_row = ''Income_< 20K''"
    "node_key ''RiskRating'' plain_row = ''RiskRating_Low''"
    by (simp_all add: node_key_def prop_of_def template_def plain_row_def)
  have "collect fresh_link [plain_row, plain_row] =
    ([''EducationLevel_PhD'', ''PaymentHistory_Good'', ''Income_< 20K'', ''RiskRating_Low''],
     [(''EducationLevel_PhD->PaymentHistory_Good'',
       \<lparr>source = ''EducationLevel_PhD'', target = ''PaymentHistory_Good'', link_value = 2\<rparr>),
      (''PaymentHistory_Good->Income_< 20K'',
       \<lparr>source = ''PaymentHistory_Good'', target = ''Income_< 20K'', link_value = 2\<rparr>),
      (''Income_< 20K->RiskRating_Low'',
       \<lparr>source = ''Income_< 20K'', target = ''RiskRating_Low'', link_value = 2\<rparr>)])"
    by (simp add: collect_def add_row_unfold keys set_add_def upsert_link_def map_has_def
        link_key_def fresh_link_def)
  then show ?thesis
    by (simp add: initChart_graph_def make_node_def nth_opt_def nodeMap_def
        upt_rec [of 0 4] upt_rec [of 1 4] upt_rec [of 2 4] upt_rec [of 3 4])
qed

text \<open>An instance: two equal rows without an arrow.\<close>

lemma arrow_free_out_weight_example:
  "list_all arrow_free [plain_row, plain_row] \<and>
   name (fst (initChart_graph [plain_row, plain_row]) ! 0) = ''EducationLevel'' @ ''_'' @ ''PhD'' \<and>
   out_weight 0 (snd (initChart_graph [plain_row, plain_row])) = 2 \<and>
   rows_through ''EducationLevel'' ''PhD'' [plain_row, plain_row] = 2"
proof -
  have h1: "list_all arrow_free [plain_row, plain_row]"
    by (simp add: arrow_free_def plain_row_def)
  have h2: "0 < length (fst (initChart_graph [plain_row, plain_row]))"
    and h3: "name (fst (initChart_graph [plain_row, plain_row]) ! 0) = ''EducationLevel'' @ ''_'' @ ''PhD''"
    by (simp_all add: plain_rows_graph)
  have h4: "''EducationLevel'' \<in> set (butlast dimensions)"
    by (simp add: dimensions_def)
  have "rows_through ''EducationLevel'' ''PhD'' [plain_row, plain_row] = 2"
    by (simp add: rows_through_def prop_of_def plain_row_def)
  with arrow_free_out_weight [OF h1 h2 h3 h4] h1 h3 show ?thesis
    by simp
qed

lemma arrow_free_link_of_pair:
  assumes "list_all arrow_free data" and "(s, t, d) \<in> set (occurrences data)"
  shows "\<exists>l. map_of (snd (collect fresh_link data)) (link_key s t) = Some l \<and>
             source l = s \<and> target l = t \<and>
             link_value l = length (filter (\<lambda>x. fst x = s \<and> fst (snd x) = t) (occurrences data))"
  using arrow_free_distinct_link_keys [OF assms(1)] assms(2) by (rule link_of_pair)

section \<open>The flow graph: two pairs with one link key\<close>

lemma arrow_keys:
  "node_key ''EducationLevel'' arrow_row1 = ''EducationLevel_A->PaymentHistory_B''"
  "node_key ''PaymentHistory'' arrow_row1 = ''PaymentHistory_C''"
  "node_key ''Income'' arrow_row1 = ''Income_< 20K''"
  "node_key ''RiskRating'' arrow_row1 = ''RiskRating_Low''"
  "node_key ''EducationLevel'' arrow_row2 = ''EducationLevel_A''"
  "node_key ''PaymentHistory'' arrow_row2 = ''PaymentHistory_B->PaymentHistory_C''"
  "node_key ''Income'' arrow_row2 = ''Income_< 20K''"
  "node_key ''RiskRating'' arrow_row2 = ''RiskRating_Low''"
  by (simp_all add: node_key_def prop_of_def template_def arrow_row1_def arrow_row2_def)

lemma collect_arrow_rows:
  "collect fresh_link [arrow_row1, arrow_row2] =
    ([''EducationLevel_A->PaymentHistory_B'', ''PaymentHistory_C'', ''Income_< 20K'',
      ''RiskRating_Low'', ''EducationLevel_A'', ''PaymentHistory_B->PaymentHistory_C''],
     [(''EducationLevel_A->PaymentHistory_B->PaymentHistory_C'',
       \<lparr>source = ''EducationLevel_A->PaymentHistory_B'', target = ''PaymentHistory_C'', link_value = 2\<rparr>),
      (''PaymentHistory_C->Income_< 20K'',
       \<lparr>source = ''PaymentHistory_C'', target = ''Income_< 20K'', link_value = 1\<rparr>),
      (''Income_< 20K->RiskRating_Low'',
       \<lparr>source = ''Income_< 20K'', target = ''RiskRating_Low'', link_value = 2\<rparr>),
      (''PaymentHistory_B->PaymentHistory_C->Income_< 20K'',
       \<lparr>source = ''PaymentHistory_B->PaymentHistory_C'', target = ''Income_< 20K'', link_value = 1\<rparr>)])"
  by (simp add: collect_def add_row_unfold arrow_keys set_add_def upsert_link_def map_has_def
      link_key_def fresh_link_def)

lemma graph_arrow_rows:
  "initChart_graph [arrow_row1, arrow_row2] =
    ([\<lparr>name = ''EducationLevel_A->PaymentHistory_B'', dimension = Some ''EducationLevel'',
        category = Some ''A->PaymentHistory''\<rparr>,
      \<lparr>name = ''PaymentHistory_C'', dimension = Some ''PaymentHistory'', category = Some ''C''\<rparr>,
      \<lparr>name = ''Income_< 20K'', dimension = Some ''Income'', category = Some ''< 20K''\<rparr>,
      \<lparr>name = ''RiskRating_Low'', dimension = Some ''RiskRating'', category = Some ''Low''\<rparr>,
      \<lparr>name = ''EducationLevel_A'', dimension = Some ''EducationLevel'', category = Some ''A''\<rparr>,
      \<lparr>name = ''PaymentHistory_B->PaymentHistory_C'', dimension = Some ''PaymentHistory'',
        category = Some ''B->PaymentHistory''\<rparr>],
     [\<lparr>source_ix = Some 0, target_ix = Some 1, value_ix = 2\<rparr>,
      \<lparr>source_ix = Some 1, target_ix = Some 2, value_ix = 1\<rparr>,
      \<lparr>source_ix = Some 2, target_ix = Some 3, value_ix = 2\<rparr>,
      \<lparr>source_ix = Some 5, target_ix = Some 2, value_ix = 1\<rparr>])"
  by (simp add: initChart_graph_def collect_arrow_rows make_node_def nth_opt_def nodeMap_def
      upt_rec [of 0 6] upt_rec [of 1 6] upt_rec [of 2 6] upt_rec [of 3 6] upt_rec [of 4 6] upt_rec [of 5 6])


lemma collect_R_arrow_rows:
  "collect fresh_link_R (filteredData ''All'' [arrow_row1, arrow_row2]) =
    ([''EducationLevel_A->PaymentHistory_B'', ''PaymentHistory_C'', ''Income_< 20K'',
      ''RiskRating_Low'', ''EducationLevel_A'', ''PaymentHistory_B->PaymentHistory_C''],
     [(''EducationLevel_A->PaymentHistory_B->PaymentHistory_C'',
       \<lparr>source = ''EducationLevel_A->PaymentHistory_B'', target = ''PaymentHistory_C'',
          link_value = 2, riskRating = ''Low''\<rparr>),
      (''PaymentHistory_C->Income_< 20K'',
       \<lparr>source = ''PaymentHistory_C'', target = ''Income_< 20K'', link_value = 1, riskRating = ''Low''\<rparr>),
      (''Income_< 20K->RiskRating_Low'',
       \<lparr>source = ''Income_< 20K'', target = ''RiskRating_Low'', link_value = 2, riskRating = ''Low''\<rparr>),
      (''PaymentHistory_B->PaymentHistory_C->Income_< 20K'',
       \<lparr>source = ''PaymentHistory_B->PaymentHistory_C'', target = ''Income_< 20K'',
          link_value = 1, riskRating = ''Low''\<rparr>)])"
  by (simp add: filteredData_def collect_def add_row_unfold arrow_keys set_add_def upsert_link_def
      map_has_def link_key_def fresh_link_R_def)
    (simp add: arrow_row1_def arrow_row2_def)

lemma arrow_rows_loaded:
  "SankeyPlot_load five_thousand no_trim [arrow_line1, arrow_line2] = [arrow_row1, arrow_row2]"
  by (simp add: SankeyPlot_load_def map_filter_simps SankeyPlot_row_def Let_def truthy_text_def
      arrow_line1_def arrow_line2_def five_thousand_def no_trim_def unary_plus_def isNaN_def
      assignIncomeToRange_def arrow_row1_def arrow_row2_def)

text \<open>
  Claim C3 at two rows whose categories contain an arrow. The adjacent pairs of their
  first two dimensions are different pairs of node keys with the same link key. The
  second pair gets no link of its own: it raises the value of the first pair's link to 2,
  in the Homework 2 diagram and in the Homework 3 diagram alike.
\<close>

theorem link_key_collision:
  "(node_key ''EducationLevel'' arrow_row1, node_key ''PaymentHistory'' arrow_row1) \<noteq>
     (node_key ''EducationLevel'' arrow_row2, node_key ''PaymentHistory'' arrow_row2) \<and>
   link_key (node_key ''EducationLevel'' arrow_row1) (node_key ''PaymentHistory'' arrow_row1) =
     link_key (node_key ''EducationLevel'' arrow_row2) (node_key ''PaymentHistory'' arrow_row2) \<and>
   map_of (snd (collect fresh_link [arrow_row1, arrow_row2]))
       (link_key (node_key ''EducationLevel'' arrow_row2) (node_key ''PaymentHistory'' arrow_row2)) =
     Some \<lparr>source = node_key ''EducationLevel'' arrow_row1,
            target = node_key ''PaymentHistory'' arrow_row1, link_value = 2\<rparr> \<and>
   \<not> (\<exists>l \<in> set (map snd (snd (collect fresh_link [arrow_row1, arrow_row2]))).
          source l = node_key ''EducationLevel'' arrow_row2 \<and>
          target l = node_key ''PaymentHistory'' arrow_row2) \<and>
   \<not> (\<exists>l \<in> set (map snd (snd (collect fresh_link_R (filteredData ''All'' [arrow_row1, arrow_row2])))).
          source l = node_key ''EducationLevel'' arrow_row2 \<and>
          target l = node_key ''PaymentHistory'' arrow_row2)"
  by (simp add: collect_arrow_rows collect_R_arrow_rows arrow_keys link_key_def)

text \<open>
  Claim C5 at the same two rows. One row passes through the node of the education level
  \<open>A\<close>, at index 4, and no weight leaves that node; one row passes through the node at
  index 0, and the weight 2 leaves it.
\<close>

theorem out_weight_collision:
  "map name (fst (initChart_graph [arrow_row1, arrow_row2])) ! 4 = node_key ''EducationLevel'' arrow_row2 \<and>
   rows_through ''EducationLevel'' ''A'' [arrow_row1, arrow_row2] = 1 \<and>
   out_weight 4 (snd (initChart_graph [arrow_row1, arrow_row2])) = 0 \<and>
   map name (fst (initChart_graph [arrow_row1, arrow_row2])) ! 0 = node_key ''EducationLevel'' arrow_row1 \<and>
   rows_through ''EducationLevel'' ''A->PaymentHistory_B'' [arrow_row1, arrow_row2] = 1 \<and>
   out_weight 0 (snd (initChart_graph [arrow_row1, arrow_row2])) = 2"
proof -
  have "rows_through ''EducationLevel'' ''A'' [arrow_row1, arrow_row2] = 1"
    and "rows_through ''EducationLevel'' ''A->PaymentHistory_B'' [arrow_row1, arrow_row2] = 1"
    by (simp_all add: rows_through_def prop_of_def arrow_row1_def arrow_row2_def)
  then show ?thesis
    by (simp add: graph_arrow_rows arrow_keys out_weight_def)
qed


end
